theory Spec2Isabelle
  imports Main
begin

section \<open>Strings\<close>

text \<open>
  A JavaScript string is a sequence of UTF-16 code units. A code unit is modelled as the
  natural number it holds, so that any text the model service can send (Devanagari, the
  rupee sign) is a value of the model. \<open>js\<close> turns a literal of this theory into such a
  string.
\<close>

type_synonym jstring = "nat list"

definition js :: "string \<Rightarrow> jstring" where
  "js s = map of_char s"

text \<open>Truthiness of a value that is a string or \<open>undefined\<close>: the empty string is falsy.\<close>

fun truthy :: "jstring option \<Rightarrow> bool" where
  "truthy None = False"
| "truthy (Some s) = (s \<noteq> [])"

section \<open>Grounding sources (services/geminiService.ts)\<close>

text \<open>
  A grounding chunk of the response, as far as the code reads it: \<open>chunk.web?.uri\<close> and
  \<open>chunk.web?.title\<close>, each of which may be absent.
\<close>

record web_chunk =
  web_uri :: "jstring option"
  web_title :: "jstring option"

record grounding_chunk =
  web :: "web_chunk option"

record GroundingSource =
  title :: jstring
  uri :: jstring

text \<open>\<open>chunk.web?.uri\<close> and \<open>chunk.web?.title\<close>: \<open>undefined\<close> when \<open>web\<close> is absent.\<close>

definition chunk_uri :: "grounding_chunk \<Rightarrow> jstring option" where
  "chunk_uri chunk = (case web chunk of None \<Rightarrow> None | Some w \<Rightarrow> web_uri w)"

definition chunk_title :: "grounding_chunk \<Rightarrow> jstring option" where
  "chunk_title chunk = (case web chunk of None \<Rightarrow> None | Some w \<Rightarrow> web_title w)"

text \<open>
  The body of \<open>chunks.forEach\<close>: push \<open>{title, uri}\<close> when both are truthy. The array
  \<open>sources\<close> is passed and returned.
\<close>

definition pushSource :: "GroundingSource list \<Rightarrow> grounding_chunk \<Rightarrow> GroundingSource list" where
  "pushSource sources chunk =
     (if truthy (chunk_uri chunk) \<and> truthy (chunk_title chunk)
      then sources @ [\<lparr>title = the (chunk_title chunk), uri = the (chunk_uri chunk)\<rparr>]
      else sources)"

text \<open>
  \<open>const sources = []; if (chunks) { chunks.forEach(...) }\<close>; \<open>chunks\<close> is \<open>undefined\<close>
  when the optional chain into the response finds nothing.
\<close>

definition extractSources :: "grounding_chunk list option \<Rightarrow> GroundingSource list" where
  "extractSources chunks =
     (case chunks of None \<Rightarrow> [] | Some cs \<Rightarrow> foldl pushSource [] cs)"

subsection \<open>The Map of the deduplication\<close>

text \<open>
  A JavaScript \<open>Map\<close> keeps its entries in the order in which their keys were first
  inserted; \<open>set\<close> on a key that is present replaces the value and keeps the position.
\<close>

fun Map_set :: "('k \<times> 'v) list \<Rightarrow> 'k \<Rightarrow> 'v \<Rightarrow> ('k \<times> 'v) list" where
  "Map_set [] k v = [(k, v)]"
| "Map_set ((k', v') # m) k v =
     (if k' = k then (k, v) # m else (k', v') # Map_set m k v)"

text \<open>\<open>new Map(entries)\<close>: the entries are set one after the other.\<close>

definition new_Map :: "('k \<times> 'v) list \<Rightarrow> ('k \<times> 'v) list" where
  "new_Map entries = foldl (\<lambda>m (k, v). Map_set m k v) [] entries"

definition Map_values :: "('k \<times> 'v) list \<Rightarrow> 'v list" where
  "Map_values m = map snd m"

text \<open>
  \<open>Array.from(new Map(sources.map(item => [item.uri, item])).values())\<close>
\<close>

definition uniqueSources :: "GroundingSource list \<Rightarrow> GroundingSource list" where
  "uniqueSources sources = Map_values (new_Map (map (\<lambda>item. (uri item, item)) sources))"

text \<open>The last entry of a list that carries a given uri, when there is one.\<close>

definition last_with_uri :: "jstring \<Rightarrow> GroundingSource list \<Rightarrow> GroundingSource option" where
  "last_with_uri u sources =
     (if filter (\<lambda>s. uri s = u) sources = [] then None
      else Some (last (filter (\<lambda>s. uri s = u) sources)))"

section \<open>Errors, the client and the chat session (services/geminiService.ts)\<close>

text \<open>
  A thrown value: \<open>new Error(message)\<close>, or one of the errors the engine raises
  (\<open>JSON.parse\<close> on text that is no JSON, a property read on \<open>null\<close>, a method that the
  value does not have).
\<close>

datatype error = Error jstring | SyntaxError | TypeError

record GoogleGenAI =
  apiKey :: jstring

text \<open>\<open>process.env.API_KEY\<close> is a string or \<open>undefined\<close>; \<open>!apiKey\<close> holds for both
  \<open>undefined\<close> and the empty string.\<close>

definition missingKeyMessage :: jstring where
  "missingKeyMessage = js ''API Key is missing. Please set process.env.API_KEY.''"

definition getAiClient :: "jstring option \<Rightarrow> error + GoogleGenAI" where
  "getAiClient key =
     (if \<not> truthy key then Inl (Error missingKeyMessage) else Inr \<lparr>apiKey = the key\<rparr>)"

record Chat =
  chat_model :: jstring
  chat_systemInstruction :: jstring

definition createChatSession :: "jstring option \<Rightarrow> jstring option \<Rightarrow> error + Chat" where
  "createChatSession key context =
     (case getAiClient key of
        Inl e \<Rightarrow> Inl e
      | Inr ai \<Rightarrow>
          Inr \<lparr>chat_model = js ''gemini-3-pro-preview'',
               chat_systemInstruction =
                 js ''You are a helpful and knowledgeable AI political assistant for 'PolitiSight India'. ''
                 @ [10] @ js ''  Answer questions about Indian politics, elections, and the application's analysis features. ''
                 @ [10] @ js ''  Keep responses concise and neutral.''
                 @ [10] @ js ''  ''
                 @ (if truthy context then [10] @ js ''CONTEXT: '' @ the context else [])\<rparr>)"

section \<open>The chat component (components/ChatBot.tsx)\<close>

text \<open>
  The component reads its props at their declared types; a report is modelled here with
  the fields the component reads (\<open>id\<close>, \<open>title\<close>, \<open>executiveSummary\<close> and the texts of
  \<open>keyInsights\<close>).
\<close>

record KeyInsight =
  insight_text :: jstring

record Report =
  report_id :: jstring
  report_title :: jstring
  report_executiveSummary :: jstring
  report_keyInsights :: "KeyInsight list"

datatype role = User | Model

record ChatMessage =
  msg_id :: jstring
  msg_role :: role
  msg_text :: jstring
  msg_timestamp :: int

text \<open>The state of the component: the \<open>useState\<close> cells and the \<open>chatSession\<close> ref.\<close>

record ChatBot_state =
  messages :: "ChatMessage list"
  input :: jstring
  isTyping :: bool
  chatSession :: "Chat option"

text \<open>\<open>Array.prototype.join\<close> on an array of strings.\<close>

fun join :: "jstring \<Rightarrow> jstring list \<Rightarrow> jstring" where
  "join sep [] = []"
| "join sep [x] = x"
| "join sep (x # y # ys) = x @ sep @ join sep (y # ys)"

definition contextString :: "Report option \<Rightarrow> Report list \<Rightarrow> jstring" where
  "contextString currentReport history =
     (case currentReport of
        None \<Rightarrow> []
      | Some r \<Rightarrow>
          js ''User is currently viewing a report titled: \"'' @ report_title r @ js ''\". ''
          @ [10] @ js ''        Executive Summary: '' @ report_executiveSummary r @ js ''.''
          @ [10] @ js ''        Key Insights: ''
          @ join (js ''; '') (map insight_text (report_keyInsights r)) @ js ''. '')
     @ (if length history > 0
        then js ''User has previously analyzed: ''
             @ join (js '', '') (map report_title (take 3 history)) @ js ''.''
        else [])"

definition greeting :: "Report option \<Rightarrow> int \<Rightarrow> ChatMessage" where
  "greeting currentReport now =
     \<lparr>msg_id = js ''init'',
      msg_role = Model,
      msg_text =
        (case currentReport of
           Some r \<Rightarrow> js ''I'm here to help you dig deeper into \"'' @ report_title r
                     @ js ''\". What would you like to know?''
         | None \<Rightarrow> js ''Namaste! I'm your PolitiSight assistant. Ask me about Indian politics or start a new analysis.''),
      msg_timestamp = now\<rparr>"

text \<open>
  The effect that (re)creates the session, run when \<open>currentReport?.id\<close> or
  \<open>history.length\<close> changes. \<open>now\<close> is what \<open>new Date()\<close> reads. A throw of
  \<open>createChatSession\<close> is caught and logged: the state stays as it was.
\<close>

definition initChat ::
  "jstring option \<Rightarrow> int \<Rightarrow> Report option \<Rightarrow> Report list \<Rightarrow> ChatBot_state \<Rightarrow> ChatBot_state" where
  "initChat key now currentReport history st =
     (case createChatSession key (Some (contextString currentReport history)) of
        Inl e \<Rightarrow> st
      | Inr session \<Rightarrow>
          (if length (messages st) = 0
           then st\<lparr>chatSession := Some session, messages := [greeting currentReport now]\<rparr>
           else st\<lparr>chatSession := Some session\<rparr>))"

text \<open>The state of a freshly mounted component.\<close>

definition ChatBot_initial :: ChatBot_state where
  "ChatBot_initial = \<lparr>messages = [], input = [], isTyping = False, chatSession = None\<rparr>"

subsection \<open>Sending a message\<close>

text \<open>White space and line terminators, which \<open>String.prototype.trim\<close> removes.\<close>

definition is_space :: "nat \<Rightarrow> bool" where
  "is_space c \<longleftrightarrow>
     c \<in> {9, 10, 11, 12, 13, 32, 160, 5760, 8232, 8233, 8239, 8287, 12288, 65279}
     \<or> (8192 \<le> c \<and> c \<le> 8202)"

definition trim :: "jstring \<Rightarrow> jstring" where
  "trim s = rev (dropWhile is_space (rev (dropWhile is_space s)))"

text \<open>Decimal digits of a natural number, and \<open>Number.prototype.toString\<close> on an integer
  (what \<open>Date.now()\<close> returns).\<close>

fun decimal :: "nat \<Rightarrow> jstring" where
  "decimal n = (if n < 10 then [48 + n] else decimal (n div 10) @ [48 + n mod 10])"

declare decimal.simps [simp del]

definition Number_toString :: "int \<Rightarrow> jstring" where
  "Number_toString i = (if i < 0 then 45 # decimal (nat (- i)) else decimal (nat i))"

text \<open>
  What \<open>chatSession.current.sendMessageStream\<close> does: it throws, or it gives a stream of
  chunks, each with a text or none, that ends or throws after its last chunk.
\<close>

datatype stream_end = Completes | Throws

datatype stream_result = SendFails | Stream "jstring option list" stream_end

text \<open>The readings of the clock during one \<open>handleSend\<close>, in the order of the calls, and
  the answer of the session.\<close>

record send_env =
  user_now :: int
  user_date :: int
  bot_now :: int
  bot_date :: int
  error_now :: int
  error_date :: int
  sendMessageStream :: stream_result

text \<open>
  The body of \<open>for await (const chunk of result)\<close>: the accumulated text and the message
  list are passed and returned.
\<close>

fun streamLoop ::
  "jstring \<Rightarrow> jstring option list \<Rightarrow> jstring \<times> ChatMessage list \<Rightarrow> jstring \<times> ChatMessage list" where
  "streamLoop botMsgId [] (fullResponse, msgs) = (fullResponse, msgs)"
| "streamLoop botMsgId (c # cs) (fullResponse, msgs) =
     (if truthy c
      then streamLoop botMsgId cs
             (fullResponse @ the c,
              map (\<lambda>msg. if msg_id msg = botMsgId then msg\<lparr>msg_text := fullResponse @ the c\<rparr> else msg)
                msgs)
      else streamLoop botMsgId cs (fullResponse, msgs))"

definition errorMessage :: "send_env \<Rightarrow> ChatMessage" where
  "errorMessage env =
     \<lparr>msg_id = Number_toString (error_now env),
      msg_role = Model,
      msg_text = js ''I'm sorry, I encountered an error. Please try again.'',
      msg_timestamp = error_date env\<rparr>"

definition userMessage :: "send_env \<Rightarrow> ChatBot_state \<Rightarrow> ChatMessage" where
  "userMessage env st =
     \<lparr>msg_id = Number_toString (user_now env), msg_role = User,
      msg_text = input st, msg_timestamp = user_date env\<rparr>"

definition botMsgId :: "send_env \<Rightarrow> jstring" where
  "botMsgId env = Number_toString (bot_now env + 1)"

definition placeholder :: "send_env \<Rightarrow> ChatMessage" where
  "placeholder env =
     \<lparr>msg_id = botMsgId env, msg_role = Model, msg_text = [], msg_timestamp = bot_date env\<rparr>"

definition handleSend :: "send_env \<Rightarrow> ChatBot_state \<Rightarrow> ChatBot_state" where
  "handleSend env st =
     (if trim (input st) = [] \<or> chatSession st = None then st
      else
        let st1 = st\<lparr>messages := messages st @ [userMessage env st],
                      input := [], isTyping := True\<rparr>
        in (case sendMessageStream env of
              SendFails \<Rightarrow>
                st1\<lparr>messages := messages st1 @ [errorMessage env], isTyping := False\<rparr>
            | Stream chunks ending \<Rightarrow>
                let msgs = snd (streamLoop (botMsgId env) chunks
                                  ([], messages st1 @ [placeholder env]))
                in (case ending of
                      Completes \<Rightarrow> st1\<lparr>messages := msgs, isTyping := False\<rparr>
                    | Throws \<Rightarrow> st1\<lparr>messages := msgs @ [errorMessage env], isTyping := False\<rparr>)))"

text \<open>
  The message list that the component shows once the first \<open>k\<close> chunks of the stream
  have arrived.
\<close>

definition messagesAfter :: "send_env \<Rightarrow> ChatBot_state \<Rightarrow> jstring option list \<Rightarrow> nat \<Rightarrow> ChatMessage list" where
  "messagesAfter env st chunks k =
     snd (streamLoop (botMsgId env) (take k chunks)
            ([], messages st @ [userMessage env st, placeholder env]))"

text \<open>The text a chunk adds: nothing when the chunk has no text.\<close>

fun delta :: "jstring option \<Rightarrow> jstring" where
  "delta None = []"
| "delta (Some t) = t"

section \<open>JSON text (\<open>JSON.parse\<close> and \<open>JSON.stringify\<close>)\<close>

text \<open>
  The values that \<open>JSON.parse\<close> yields and \<open>JSON.stringify\<close> takes. A number is kept
  as the numeral that denotes it; rounding to a double is outside this model (a numeral
  beyond the range of doubles, and the sign of zero, are not distinguished from other
  numerals). An object is the list of its properties in insertion order; the rule of the
  engine that enumerates integer-like names first is not modelled, since it changes no
  property and no value.
\<close>

datatype json =
    JNull
  | JBool bool
  | JNum jstring
  | JStr jstring
  | JArr "json list"
  | JObj "(jstring \<times> json) list"

text \<open>The tokens of a JSON text.\<close>

datatype token =
    LBrace | RBrace | LBracket | RBracket | Colon | Comma
  | TString jstring | TNumber jstring | TTrue | TFalse | TNull

text \<open>The digits, and the four characters that JSON takes as white space (tab, line feed,
  carriage return, space).\<close>

definition is_digit :: "nat \<Rightarrow> bool" where
  "is_digit c \<longleftrightarrow> 48 \<le> c \<and> c \<le> 57"

definition is_ws :: "nat \<Rightarrow> bool" where
  "is_ws c \<longleftrightarrow> c = 9 \<or> c = 10 \<or> c = 13 \<or> c = 32"

text \<open>The value of a hexadecimal digit, of either case, and of the four digits that
  follow the letter u in an escape.\<close>

definition hexval :: "nat \<Rightarrow> nat option" where
  "hexval c =
     (if 48 \<le> c \<and> c \<le> 57 then Some (c - 48)
      else if 97 \<le> c \<and> c \<le> 102 then Some (c - 87)
      else if 65 \<le> c \<and> c \<le> 70 then Some (c - 55)
      else None)"

definition hex4 :: "nat \<Rightarrow> nat \<Rightarrow> nat \<Rightarrow> nat \<Rightarrow> nat option" where
  "hex4 a b c d =
     (case (hexval a, hexval b, hexval c, hexval d) of
        (Some h3, Some h2, Some h1, Some h0) \<Rightarrow> Some (((h3 * 16 + h2) * 16 + h1) * 16 + h0)
      | _ \<Rightarrow> None)"

text \<open>The character that a one-letter escape denotes: quote, backslash, slash, b, f, n, r, t.\<close>

definition unescape :: "nat \<Rightarrow> nat option" where
  "unescape e =
     (if e = 34 then Some 34
      else if e = 92 then Some 92
      else if e = 47 then Some 47
      else if e = 98 then Some 8
      else if e = 102 then Some 12
      else if e = 110 then Some 10
      else if e = 114 then Some 13
      else if e = 116 then Some 9
      else None)"

text \<open>Prepending to the text that a lexer has read.\<close>

definition cons_fst :: "'a \<Rightarrow> ('a list \<times> 'b) option \<Rightarrow> ('a list \<times> 'b) option" where
  "cons_fst x r = (case r of None \<Rightarrow> None | Some (xs, rest) \<Rightarrow> Some (x # xs, rest))"

text \<open>The characters of a string after its opening quote, up to the closing quote: an escape
  is decoded, a raw control character (below U+0020) is refused, as is the end of the text.\<close>

fun lex_string :: "jstring \<Rightarrow> (jstring \<times> jstring) option" where
  "lex_string [] = None"
| "lex_string (c # cs) =
     (if c = 34 then Some ([], cs)
      else if c = 92 then
        (case cs of
           [] \<Rightarrow> None
         | e # cs' \<Rightarrow>
             if e = 117 then
               (case cs' of
                  h3 # h2 # h1 # h0 # cs'' \<Rightarrow>
                    (case hex4 h3 h2 h1 h0 of
                       None \<Rightarrow> None
                     | Some u \<Rightarrow> cons_fst u (lex_string cs''))
                | _ \<Rightarrow> None)
             else
               (case unescape e of
                  None \<Rightarrow> None
                | Some u \<Rightarrow> cons_fst u (lex_string cs')))
      else if c < 32 then None
      else cons_fst c (lex_string cs))"

text \<open>A number is an optional minus sign, an integer part (a zero, or digits that do not start
  with a zero), an optional fraction (a point and digits) and an optional exponent (e or E,
  an optional sign, digits). The lexer of each part returns the text of the part and the
  rest; \<open>lex_seq\<close> runs one after the other.\<close>

definition lex_int :: "jstring \<Rightarrow> (jstring \<times> jstring) option" where
  "lex_int cs =
     (case cs of
        [] \<Rightarrow> None
      | c # cs' \<Rightarrow>
          if c = 48 then Some ([48], cs')
          else if is_digit c then Some (c # takeWhile is_digit cs', dropWhile is_digit cs')
          else None)"

definition lex_digits1 :: "jstring \<Rightarrow> (jstring \<times> jstring) option" where
  "lex_digits1 cs =
     (case cs of
        [] \<Rightarrow> None
      | c # cs' \<Rightarrow>
          if is_digit c then Some (c # takeWhile is_digit cs', dropWhile is_digit cs')
          else None)"

definition lex_frac :: "jstring \<Rightarrow> (jstring \<times> jstring) option" where
  "lex_frac cs =
     (case cs of
        [] \<Rightarrow> Some ([], [])
      | c # cs' \<Rightarrow> if c = 46 then cons_fst 46 (lex_digits1 cs') else Some ([], cs))"

definition lex_exp :: "jstring \<Rightarrow> (jstring \<times> jstring) option" where
  "lex_exp cs =
     (case cs of
        [] \<Rightarrow> Some ([], [])
      | c # cs' \<Rightarrow>
          if c = 101 \<or> c = 69 then
            (case cs' of
               [] \<Rightarrow> None
             | s # cs'' \<Rightarrow>
                 if s = 43 \<or> s = 45 then cons_fst c (cons_fst s (lex_digits1 cs''))
                 else cons_fst c (lex_digits1 cs'))
          else Some ([], cs))"

definition lex_sign :: "jstring \<Rightarrow> (jstring \<times> jstring) option" where
  "lex_sign cs = (case cs of [] \<Rightarrow> Some ([], []) | c # cs' \<Rightarrow> if c = 45 then Some ([45], cs') else Some ([], cs))"

definition lex_seq ::
  "(jstring \<Rightarrow> (jstring \<times> jstring) option) \<Rightarrow> (jstring \<Rightarrow> (jstring \<times> jstring) option) \<Rightarrow>
   jstring \<Rightarrow> (jstring \<times> jstring) option" where
  "lex_seq f g cs =
     (case f cs of
        None \<Rightarrow> None
      | Some (l1, r1) \<Rightarrow> (case g r1 of None \<Rightarrow> None | Some (l2, r2) \<Rightarrow> Some (l1 @ l2, r2)))"

definition lex_number :: "jstring \<Rightarrow> (jstring \<times> jstring) option" where
  "lex_number = lex_seq lex_sign (lex_seq lex_int (lex_seq lex_frac lex_exp))"

text \<open>What the lexers of strings and numbers return is shorter than what they got: the lexer
  below terminates.\<close>

lemma cons_fst_Some: "cons_fst x r = Some (l, rest) \<longleftrightarrow> (\<exists>l'. r = Some (l', rest) \<and> l = x # l')"
  by (auto simp: cons_fst_def split: option.splits)

lemma lex_string_length: "lex_string cs = Some (s, rest) \<Longrightarrow> length rest < length cs"
proof (induction "length cs" arbitrary: cs s rule: less_induct)
  case less
  show ?case
  proof (cases cs)
    case Nil
    with less.prems show ?thesis by simp
  next
    case (Cons c cs1)
    have IH: "length rest < length y" if "length y \<le> length cs1" "lex_string y = Some (t, rest)" for y t
      using less.hyps [of y t] that Cons by simp
    from less.prems Cons show ?thesis
      by (auto simp: cons_fst_Some split: if_splits list.splits option.splits dest!: IH [rotated])
  qed
qed

lemma lex_sign_split: "lex_sign cs = Some (l, r) \<Longrightarrow> cs = l @ r"
  by (auto simp: lex_sign_def split: list.splits if_splits)

lemma lex_digits1_split: "lex_digits1 cs = Some (l, r) \<Longrightarrow> cs = l @ r \<and> l \<noteq> []"
  by (auto simp: lex_digits1_def split: list.splits if_splits)

lemma lex_int_split: "lex_int cs = Some (l, r) \<Longrightarrow> cs = l @ r \<and> l \<noteq> []"
  by (auto simp: lex_int_def split: list.splits if_splits)

lemma lex_frac_split: "lex_frac cs = Some (l, r) \<Longrightarrow> cs = l @ r"
  by (auto simp: lex_frac_def cons_fst_Some split: list.splits if_splits dest: lex_digits1_split)

lemma lex_exp_split: "lex_exp cs = Some (l, r) \<Longrightarrow> cs = l @ r"
  by (auto simp: lex_exp_def cons_fst_Some split: list.splits if_splits dest: lex_digits1_split)

lemma lex_seq_Some:
  "lex_seq f g cs = Some (l, r) \<longleftrightarrow>
     (\<exists>l1 r1 l2. f cs = Some (l1, r1) \<and> g r1 = Some (l2, r) \<and> l = l1 @ l2)"
  by (auto simp: lex_seq_def split: option.splits)

lemma lex_number_split: "lex_number cs = Some (l, r) \<Longrightarrow> cs = l @ r \<and> l \<noteq> []"
  by (auto simp: lex_number_def lex_seq_Some
      dest!: lex_sign_split lex_int_split lex_frac_split lex_exp_split)

lemma lex_number_length: "lex_number cs = Some (l, r) \<Longrightarrow> length r < length cs"
  by (drule lex_number_split) (cases l, auto)

text \<open>The lexer: white space between tokens is skipped; \<open>None\<close> is an error.\<close>

definition cons_token :: "token \<Rightarrow> token list option \<Rightarrow> token list option" where
  "cons_token t r = map_option ((#) t) r"

function lex :: "jstring \<Rightarrow> token list option" where
  "lex [] = Some []"
| "lex (c # cs) =
     (if is_ws c then lex cs
      else if c = 123 then cons_token LBrace (lex cs)
      else if c = 125 then cons_token RBrace (lex cs)
      else if c = 91 then cons_token LBracket (lex cs)
      else if c = 93 then cons_token RBracket (lex cs)
      else if c = 58 then cons_token Colon (lex cs)
      else if c = 44 then cons_token Comma (lex cs)
      else if c = 34 then
        (case lex_string cs of
           None \<Rightarrow> None
         | Some (s, rest) \<Rightarrow> cons_token (TString s) (lex rest))
      else if c = 45 \<or> is_digit c then
        (case lex_number (c # cs) of
           None \<Rightarrow> None
         | Some (l, rest) \<Rightarrow> cons_token (TNumber l) (lex rest))
      else if take 4 (c # cs) = [116, 114, 117, 101] then cons_token TTrue (lex (drop 3 cs))
      else if take 5 (c # cs) = [102, 97, 108, 115, 101] then cons_token TFalse (lex (drop 4 cs))
      else if take 4 (c # cs) = [110, 117, 108, 108] then cons_token TNull (lex (drop 3 cs))
      else None)"
  by pat_completeness auto
termination
proof (relation "measure length")
  show "wf (measure length)" by simp
qed (auto dest: lex_string_length lex_number_length)

text \<open>The parser runs over the tokens with a stack of the arrays and objects that are open:
  an array with its elements so far, an object with its members so far and the name of
  the member whose value comes next. \<open>parse_value\<close> expects a value;
  \<open>finish_value\<close> has a value \<open>v\<close> and hands it to the innermost open array or
  object, or returns it when none is open and the text ends. A name that comes twice in
  an object keeps its first place and takes the later value.\<close>

datatype frame = InArray "json list" | InObject "(jstring \<times> json) list" jstring

fun parse_value :: "frame list \<Rightarrow> token list \<Rightarrow> json option"
  and finish_value :: "json \<Rightarrow> frame list \<Rightarrow> token list \<Rightarrow> json option" where
  "parse_value fs [] = None"
| "parse_value fs (t # ts) =
     (case t of
        TNull \<Rightarrow> finish_value JNull fs ts
      | TTrue \<Rightarrow> finish_value (JBool True) fs ts
      | TFalse \<Rightarrow> finish_value (JBool False) fs ts
      | TString s \<Rightarrow> finish_value (JStr s) fs ts
      | TNumber l \<Rightarrow> finish_value (JNum l) fs ts
      | LBracket \<Rightarrow>
          (case ts of
             RBracket # ts' \<Rightarrow> finish_value (JArr []) fs ts'
           | _ \<Rightarrow> parse_value (InArray [] # fs) ts)
      | LBrace \<Rightarrow>
          (case ts of
             RBrace # ts' \<Rightarrow> finish_value (JObj []) fs ts'
           | TString k # Colon # ts' \<Rightarrow> parse_value (InObject [] k # fs) ts'
           | _ \<Rightarrow> None)
      | _ \<Rightarrow> None)"
| "finish_value v [] ts = (if ts = [] then Some v else None)"
| "finish_value v (InArray es # fs) ts =
     (case ts of
        Comma # ts' \<Rightarrow> parse_value (InArray (es @ [v]) # fs) ts'
      | RBracket # ts' \<Rightarrow> finish_value (JArr (es @ [v])) fs ts'
      | _ \<Rightarrow> None)"
| "finish_value v (InObject ms k # fs) ts =
     (case ts of
        Comma # TString k' # Colon # ts' \<Rightarrow> parse_value (InObject (Map_set ms k v) k' # fs) ts'
      | RBrace # ts' \<Rightarrow> finish_value (JObj (Map_set ms k v)) fs ts'
      | _ \<Rightarrow> None)"

text \<open>\<open>JSON.parse(text)\<close>: \<open>None\<close> when it throws a SyntaxError.\<close>

definition JSON_parse :: "jstring \<Rightarrow> json option" where
  "JSON_parse text = (case lex text of None \<Rightarrow> None | Some ts \<Rightarrow> parse_value [] ts)"

text \<open>\<open>JSON.stringify\<close> writes a string between quotes, with the two-character escapes
  for backspace, tab, line feed, form feed, carriage return, quote and backslash, a
  \<open>u\<close> escape with four lower-case hexadecimal digits for every other control character
  and for a surrogate that is not part of a pair, and every other code unit as it is.\<close>

definition hexdigit :: "nat \<Rightarrow> nat" where
  "hexdigit n = (if n < 10 then 48 + n else 87 + n)"

definition unicode_escape :: "nat \<Rightarrow> jstring" where
  "unicode_escape c =
     [92, 117, hexdigit (c div 4096 mod 16), hexdigit (c div 256 mod 16),
      hexdigit (c div 16 mod 16), hexdigit (c mod 16)]"

definition quote_unit :: "nat \<Rightarrow> jstring" where
  "quote_unit c =
     (if c = 8 then [92, 98]
      else if c = 9 then [92, 116]
      else if c = 10 then [92, 110]
      else if c = 12 then [92, 102]
      else if c = 13 then [92, 114]
      else if c = 34 then [92, 34]
      else if c = 92 then [92, 92]
      else if c < 32 then unicode_escape c
      else [c])"

definition is_high_surrogate :: "nat \<Rightarrow> bool" where
  "is_high_surrogate c \<longleftrightarrow> 55296 \<le> c \<and> c \<le> 56319"

definition is_low_surrogate :: "nat \<Rightarrow> bool" where
  "is_low_surrogate c \<longleftrightarrow> 56320 \<le> c \<and> c \<le> 57343"

fun quote_units :: "jstring \<Rightarrow> jstring" where
  "quote_units [] = []"
| "quote_units [c] =
     (if is_high_surrogate c \<or> is_low_surrogate c then unicode_escape c else quote_unit c)"
| "quote_units (c # d # cs) =
     (if is_high_surrogate c then
        (if is_low_surrogate d then c # d # quote_units cs
         else unicode_escape c @ quote_units (d # cs))
      else if is_low_surrogate c then unicode_escape c @ quote_units (d # cs)
      else quote_unit c @ quote_units (d # cs))"

text \<open>The text of a token, and the tokens of a value: \<open>JSON.stringify(v)\<close> is their
  texts with nothing between them.\<close>

fun token_text :: "token \<Rightarrow> jstring" where
  "token_text LBrace = [123]"
| "token_text RBrace = [125]"
| "token_text LBracket = [91]"
| "token_text RBracket = [93]"
| "token_text Colon = [58]"
| "token_text Comma = [44]"
| "token_text (TString s) = 34 # quote_units s @ [34]"
| "token_text (TNumber l) = l"
| "token_text TTrue = [116, 114, 117, 101]"
| "token_text TFalse = [102, 97, 108, 115, 101]"
| "token_text TNull = [110, 117, 108, 108]"

function tokens :: "json \<Rightarrow> token list"
  and elements_tokens :: "json list \<Rightarrow> token list"
  and members_tokens :: "(jstring \<times> json) list \<Rightarrow> token list" where
  "tokens JNull = [TNull]"
| "tokens (JBool b) = [if b then TTrue else TFalse]"
| "tokens (JNum l) = [TNumber l]"
| "tokens (JStr s) = [TString s]"
| "tokens (JArr []) = [LBracket, RBracket]"
| "tokens (JArr (v # vs)) = LBracket # tokens v @ elements_tokens vs @ [RBracket]"
| "tokens (JObj []) = [LBrace, RBrace]"
| "tokens (JObj ((k, v) # ms)) =
     LBrace # TString k # Colon # tokens v @ members_tokens ms @ [RBrace]"
| "elements_tokens [] = []"
| "elements_tokens (v # vs) = Comma # tokens v @ elements_tokens vs"
| "members_tokens [] = []"
| "members_tokens ((k, v) # ms) = Comma # TString k # Colon # tokens v @ members_tokens ms"
  by pat_completeness auto
termination
  by (relation "measure (\<lambda>x. case x of
         Inl v \<Rightarrow> size v
       | Inr (Inl vs) \<Rightarrow> size_list size vs
       | Inr (Inr ms) \<Rightarrow> size_list (size_prod (\<lambda>k. 0) size) ms)") auto

definition JSON_stringify :: "json \<Rightarrow> jstring" where
  "JSON_stringify v = concat (map token_text (tokens v))"

text \<open>The well-formed values: every number is a numeral of the grammar and no object has a
  name twice. These are the values of the language; the others only exist in the model.\<close>

fun wf_json :: "json \<Rightarrow> bool" where
  "wf_json (JNum l) = (lex_number l = Some (l, []))"
| "wf_json (JArr vs) = list_all wf_json vs"
| "wf_json (JObj ms) = (distinct (map fst ms) \<and> list_all (\<lambda>m. wf_json (snd m)) ms)"
| "wf_json v = True"

subsection \<open>Notions for the round trip\<close>





subsection \<open>Notions for the values that the parser yields\<close>

text \<open>When a lexer result still holds after the rest of the text is replaced; the frames
  and the token lists that the parser meets on its way.\<close>

definition agrees :: "jstring \<Rightarrow> jstring \<Rightarrow> bool" where
  "agrees r x \<longleftrightarrow> x = [] \<or> (r \<noteq> [] \<and> x \<noteq> [] \<and> hd x = hd r)"

fun wf_frame :: "frame \<Rightarrow> bool" where
  "wf_frame (InArray es) = list_all wf_json es"
| "wf_frame (InObject ms k) = (distinct (map fst ms) \<and> list_all (\<lambda>m. wf_json (snd m)) ms)"

definition numerals :: "token list \<Rightarrow> bool" where
  "numerals ts \<longleftrightarrow> (\<forall>l. TNumber l \<in> set ts \<longrightarrow> lex_number l = Some (l, []))"

section \<open>Report generation (services/geminiService.ts)\<close>

text \<open>
  The response of the model service, as far as the code reads it: \<open>response.text\<close> and
  \<open>response.candidates?.[0]?.groundingMetadata?.groundingChunks\<close>. Every link of the
  optional chain may be absent.
\<close>

record groundingMetadata =
  groundingChunks :: "grounding_chunk list option"

record candidate =
  cand_groundingMetadata :: "groundingMetadata option"

record response =
  resp_text :: "jstring option"
  resp_candidates :: "candidate list option"

text \<open>
  The request, by its parts that vary: the prompt is a fixed text around the topic, the
  date and the history sentence (the fixed text, the schema and the configuration are the
  same in every request and are left out).
\<close>

record request =
  req_model :: jstring
  req_topic :: jstring
  req_today :: jstring
  req_userHistoryStr :: jstring

datatype stage = Researching | Analyzing | Formatting

text \<open>What a call does that its caller can see: a progress callback, a request sent.\<close>

datatype event = Progress stage | ModelCall request

text \<open>
  The environment of one call: the configured key, the formatted date, the answer of the
  model service to a request (a response, or a thrown error), and the results of
  \<open>crypto.randomUUID()\<close> and \<open>Date.now()\<close>.
\<close>

record gen_env =
  API_KEY :: "jstring option"
  today :: jstring
  generateContent :: "request \<Rightarrow> error + response"
  randomUUID :: jstring
  Date_now :: int

definition genericMessage :: jstring where
  "genericMessage = js ''Failed to generate analysis. Please try again.''"

text \<open>\<open>s.replace(/pat/g, '')\<close> for a pattern that is a literal text: every match, from
  left to right, is removed.\<close>

function removeAll :: "jstring \<Rightarrow> jstring \<Rightarrow> jstring" where
  "removeAll pat [] = []"
| "removeAll pat (c # cs) =
     (if pat \<noteq> [] \<and> take (length pat) (c # cs) = pat
      then removeAll pat (drop (length pat) (c # cs))
      else c # removeAll pat cs)"
  by pat_completeness auto
termination
  by (relation "measure (\<lambda>(pat, s). length s)") auto

text \<open>\<open>responseText.replace(/```json/g, '').replace(/```/g, '').trim()\<close>\<close>

definition cleanResponse :: "jstring \<Rightarrow> jstring" where
  "cleanResponse responseText =
     trim (removeAll (js ''```'') (removeAll (js ''```json'') responseText))"

definition userHistoryStr :: "jstring list \<Rightarrow> jstring" where
  "userHistoryStr historyContext =
     (if length historyContext > 0
      then js ''User's recent research history: '' @ join (js '', '') historyContext
           @ js ''. Use this to understand the user's political interests, but focus primarily on the new topic.''
      else [])"

definition buildRequest :: "gen_env \<Rightarrow> jstring \<Rightarrow> jstring list \<Rightarrow> request" where
  "buildRequest env topic historyContext =
     \<lparr>req_model = js ''gemini-2.5-flash'', req_topic = topic, req_today = today env,
      req_userHistoryStr = userHistoryStr historyContext\<rparr>"

definition responseChunks :: "response \<Rightarrow> grounding_chunk list option" where
  "responseChunks r =
     (case resp_candidates r of
        None \<Rightarrow> None
      | Some [] \<Rightarrow> None
      | Some (c # cs) \<Rightarrow>
          (case cand_groundingMetadata c of None \<Rightarrow> None | Some m \<Rightarrow> groundingChunks m))"

text \<open>The own enumerable properties of a value, which an object spread copies: the
  members of an object, the indexed elements of an array, the indexed units of a string,
  and nothing for \<open>null\<close>, a number or a boolean.\<close>

definition indices :: "nat \<Rightarrow> jstring list" where
  "indices n = map (\<lambda>i. Number_toString (int i)) [0..<n]"

fun ownProperties :: "json \<Rightarrow> (jstring \<times> json) list" where
  "ownProperties (JObj ms) = ms"
| "ownProperties (JArr vs) = zip (indices (length vs)) vs"
| "ownProperties (JStr s) = zip (indices (length s)) (map (\<lambda>c. JStr [c]) s)"
| "ownProperties v = []"

definition source_json :: "GroundingSource \<Rightarrow> json" where
  "source_json s = JObj [(js ''title'', JStr (title s)), (js ''uri'', JStr (uri s))]"

text \<open>\<open>{ ...data, id: crypto.randomUUID(), createdAt: Date.now(), sources: uniqueSources }\<close>:
  a property that \<open>data\<close> has already keeps its place and takes the new value.\<close>

definition buildReport :: "gen_env \<Rightarrow> json \<Rightarrow> GroundingSource list \<Rightarrow> json" where
  "buildReport env data sources =
     JObj (Map_set
            (Map_set
              (Map_set (ownProperties data) (js ''id'') (JStr (randomUUID env)))
              (js ''createdAt'') (JNum (Number_toString (Date_now env))))
            (js ''sources'') (JArr (map source_json sources)))"

text \<open>The statements of the \<open>try\<close> block after the response has arrived.\<close>

definition readResponse :: "gen_env \<Rightarrow> response \<Rightarrow> error + json" where
  "readResponse env r =
     (if \<not> truthy (resp_text r) then Inl (Error (js ''No response generated''))
      else
        (case JSON_parse (cleanResponse (the (resp_text r))) of
           None \<Rightarrow> Inl SyntaxError
         | Some data \<Rightarrow>
             Inr (buildReport env data (uniqueSources (extractSources (responseChunks r))))))"

text \<open>
  \<open>generatePoliticalReport(topic, historyContext, onProgress)\<close>: the events in their
  order, and the report returned or the error thrown. \<open>getAiClient\<close> is called before
  the \<open>try\<close>; whatever is thrown inside the \<open>try\<close> is logged and replaced by the
  generic error.
\<close>

definition generatePoliticalReport ::
  "gen_env \<Rightarrow> jstring \<Rightarrow> jstring list \<Rightarrow> event list \<times> (error + json)" where
  "generatePoliticalReport env topic historyContext =
     (case getAiClient (API_KEY env) of
        Inl e \<Rightarrow> ([], Inl e)
      | Inr ai \<Rightarrow>
          (case generateContent env (buildRequest env topic historyContext) of
             Inl e \<Rightarrow>
               ([Progress Researching, Progress Analyzing,
                 ModelCall (buildRequest env topic historyContext)],
                Inl (Error genericMessage))
           | Inr r \<Rightarrow>
               ([Progress Researching, Progress Analyzing,
                 ModelCall (buildRequest env topic historyContext), Progress Formatting],
                (case readResponse env r of
                   Inl e \<Rightarrow> Inl (Error genericMessage)
                 | Inr report \<Rightarrow> Inr report))))"

text \<open>Reading a property of a report: \<open>undefined\<close> when the value has no such own
  property. (The names read here, \<open>id\<close>, \<open>title\<close>, \<open>executiveSummary\<close> and
  \<open>sources\<close>, are defined by no prototype.)\<close>

definition property :: "json \<Rightarrow> jstring \<Rightarrow> json option" where
  "property v k = map_of (ownProperties v) k"

text \<open>The property is a string that is not empty.\<close>

definition nonempty_text :: "json \<Rightarrow> jstring \<Rightarrow> bool" where
  "nonempty_text v k = (case property v k of Some (JStr s) \<Rightarrow> s \<noteq> [] | _ \<Rightarrow> False)"

definition model_calls :: "event list \<Rightarrow> nat" where
  "model_calls evs = length (filter (\<lambda>e. case e of ModelCall r \<Rightarrow> True | _ \<Rightarrow> False) evs)"

section \<open>The history store (App.tsx)\<close>

text \<open>
  The \<open>history\<close> state cell and the item \<open>politisight_history\<close> of the local storage
  (a string, or \<open>null\<close> when nothing was stored). The cell holds whatever value was put
  into it: \<open>JSON.parse\<close> of the stored text is not checked to be an array of reports.
  The storage is taken to accept every write.
\<close>

record App_state =
  history :: json
  storage :: "jstring option"

definition App_initial :: "jstring option \<Rightarrow> App_state" where
  "App_initial stored = \<lparr>history = JArr [], storage = stored\<rparr>"

text \<open>The effect run on mount. A throw of \<open>JSON.parse\<close> is caught and logged.\<close>

definition loadHistory :: "App_state \<Rightarrow> error + App_state" where
  "loadHistory st =
     (case storage st of
        None \<Rightarrow> Inr st
      | Some saved \<Rightarrow>
          if saved = [] then Inr st
          else
            (case (case JSON_parse saved of
                     None \<Rightarrow> Inl SyntaxError
                   | Some v \<Rightarrow> Inr (st\<lparr>history := v\<rparr>)) of
               Inl e \<Rightarrow> Inr st
             | Inr st' \<Rightarrow> Inr st'))"


text \<open>The code points of a string, which its iterator yields.\<close>

fun code_points :: "jstring \<Rightarrow> jstring list" where
  "code_points [] = []"
| "code_points [c] = [[c]]"
| "code_points (c # d # cs) =
     (if is_high_surrogate c \<and> is_low_surrogate d then [c, d] # code_points cs
      else [c] # code_points (d # cs))"

text \<open>\<open>...history\<close> in an array literal: arrays and strings are iterable, nothing else
  among the values of this model is.\<close>

fun spread :: "json \<Rightarrow> error + json list" where
  "spread (JArr vs) = Inr vs"
| "spread (JStr s) = Inr (map JStr (code_points s))"
| "spread v = Inl TypeError"

definition saveToHistory :: "json \<Rightarrow> App_state \<Rightarrow> error + App_state" where
  "saveToHistory newReport st =
     (case spread (history st) of
        Inl e \<Rightarrow> Inl e
      | Inr hs \<Rightarrow>
          Inr (st\<lparr>history := JArr (newReport # hs),
                   storage := Some (JSON_stringify (JArr (newReport # hs)))\<rparr>))"

text \<open>\<open>r.id\<close>: a property read on \<open>null\<close> throws.\<close>

fun get_id :: "json \<Rightarrow> error + json option" where
  "get_id JNull = Inl TypeError"
| "get_id r = Inr (property r (js ''id''))"

text \<open>\<open>history.filter(r => r.id !== id)\<close> on an array; the first throw of the callback
  ends the call.\<close>

fun filterById :: "jstring \<Rightarrow> json list \<Rightarrow> error + json list" where
  "filterById i [] = Inr []"
| "filterById i (r # rs) =
     (case get_id r of
        Inl e \<Rightarrow> Inl e
      | Inr p \<Rightarrow>
          (case filterById i rs of
             Inl e \<Rightarrow> Inl e
           | Inr rs' \<Rightarrow> Inr (if p \<noteq> Some (JStr i) then r # rs' else rs')))"

definition deleteFromHistory :: "jstring \<Rightarrow> App_state \<Rightarrow> error + App_state" where
  "deleteFromHistory i st =
     (case history st of
        JArr hs \<Rightarrow>
          (case filterById i hs of
             Inl e \<Rightarrow> Inl e
           | Inr updated \<Rightarrow>
               Inr (st\<lparr>history := JArr updated,
                        storage := Some (JSON_stringify (JArr updated))\<rparr>))
      | _ \<Rightarrow> Inl TypeError)"


subsection \<open>Example states\<close>

definition hello_env :: send_env where
  "hello_env =
     \<lparr>user_now = 1700000000000, user_date = 1700000000000,
      bot_now = 1700000000250, bot_date = 1700000000250,
      error_now = 1700000000900, error_date = 1700000000900,
      sendMessageStream = Stream [Some (js ''Hi''), Some (js '' there'')] Completes\<rparr>"

definition hello_state :: ChatBot_state where
  "hello_state =
     \<lparr>messages = [greeting None 1699999990000], input = js ''hello'', isTyping = False,
      chatSession = Some \<lparr>chat_model = js ''gemini-3-pro-preview'', chat_systemInstruction = []\<rparr>\<rparr>"

definition roadmap_report :: Report where
  "roadmap_report =
     \<lparr>report_id = js ''r1'', report_title = js ''UP 2027'',
      report_executiveSummary = js ''Summary'', report_keyInsights = [\<lparr>insight_text = js ''Swing''\<rparr>]\<rparr>"

definition emptyTitle_env :: gen_env where
  "emptyTitle_env =
     \<lparr>API_KEY = Some (js ''key''), today = js ''Tuesday, 3 November 2026'',
      generateContent =
        (\<lambda>req. Inr \<lparr>resp_text = Some (js ''{\"title\":\"\",\"executiveSummary\":\"\"}''),
                     resp_candidates = None\<rparr>),
      randomUUID = js ''6f1c'', Date_now = 1700000000000\<rparr>"

definition notJson_env :: gen_env where
  "notJson_env =
     \<lparr>API_KEY = Some (js ''key''), today = js ''Tuesday, 3 November 2026'',
      generateContent =
        (\<lambda>req. Inr \<lparr>resp_text = Some (js ''```json {not json ```''), resp_candidates = None\<rparr>),
      randomUUID = js ''6f1c'', Date_now = 1700000000000\<rparr>"

definition noKey_env :: gen_env where
  "noKey_env =
     \<lparr>API_KEY = None, today = js ''Tuesday, 3 November 2026'',
      generateContent = (\<lambda>req. Inl (Error (js ''unreachable''))),
      randomUUID = js ''6f1c'', Date_now = 1700000000000\<rparr>"

definition sources_env :: gen_env where
  "sources_env =
     \<lparr>API_KEY = Some (js ''key''), today = js ''Tuesday, 3 November 2026'',
      generateContent =
        (\<lambda>req. Inr \<lparr>resp_text = Some (js ''{\"title\":\"UP\",\"executiveSummary\":\"S\"}''),
                     resp_candidates = Some [\<lparr>cand_groundingMetadata = Some \<lparr>groundingChunks = Some
                       [\<lparr>web = Some \<lparr>web_uri = Some (js ''a''), web_title = Some (js ''T1'')\<rparr>\<rparr>,
                        \<lparr>web = Some \<lparr>web_uri = Some (js ''b''), web_title = None\<rparr>\<rparr>,
                        \<lparr>web = None\<rparr>,
                        \<lparr>web = Some \<lparr>web_uri = Some (js ''a''), web_title = Some (js ''T2'')\<rparr>\<rparr>]\<rparr>\<rparr>]\<rparr>),
      randomUUID = js ''6f1c'', Date_now = 1700000000000\<rparr>"

definition sources_response :: response where
  "sources_response =
     \<lparr>resp_text = Some (js ''{\"title\":\"UP\",\"executiveSummary\":\"S\"}''),
      resp_candidates = Some [\<lparr>cand_groundingMetadata = Some \<lparr>groundingChunks = Some
        [\<lparr>web = Some \<lparr>web_uri = Some (js ''a''), web_title = Some (js ''T1'')\<rparr>\<rparr>,
         \<lparr>web = Some \<lparr>web_uri = Some (js ''b''), web_title = None\<rparr>\<rparr>,
         \<lparr>web = None\<rparr>,
         \<lparr>web = Some \<lparr>web_uri = Some (js ''a''), web_title = Some (js ''T2'')\<rparr>\<rparr>]\<rparr>\<rparr>]\<rparr>"



section \<open>Properties of the grounding sources\<close>

lemma Map_set_keys:
  "map fst (Map_set m k v) =
     (if k \<in> set (map fst m) then map fst m else map fst m @ [k])"
  by (induction m k v rule: Map_set.induct) auto

lemma Map_set_dom: "fst ` set (Map_set m k v) = insert k (fst ` set m)"
  by (induction m k v rule: Map_set.induct) auto

lemma Map_set_distinct:
  "distinct (map fst m) \<Longrightarrow> distinct (map fst (Map_set m k v))"
  by (simp add: Map_set_keys)

lemma Map_set_map_of:
  "map_of (Map_set m k v) = (map_of m)(k \<mapsto> v)"
  by (induction m k v rule: Map_set.induct) (auto simp: fun_eq_iff)

lemma foldl_Map_set_distinct:
  "distinct (map fst m) \<Longrightarrow>
   distinct (map fst (foldl (\<lambda>m (k, v). Map_set m k v) m es))"
  by (induction es arbitrary: m) (auto simp: Map_set_distinct)

lemma foldl_Map_set_keys:
  "fst ` set (foldl (\<lambda>m (k, v). Map_set m k v) m es) = fst ` set m \<union> fst ` set es"
proof (induction es arbitrary: m)
  case Nil
  then show ?case by simp
next
  case (Cons e es)
  obtain k v where e: "e = (k, v)" by (cases e)
  show ?case
    by (simp add: e Cons Map_set_dom)
qed

lemma foldl_Map_set_map_of:
  "map_of (foldl (\<lambda>m (k, v). Map_set m k v) m es) = map_of m ++ map_of (rev es)"
proof (induction es arbitrary: m)
  case Nil
  then show ?case by simp
next
  case (Cons e es)
  obtain k v where e: "e = (k, v)" by (cases e)
  show ?case
    by (simp add: e Cons Map_set_map_of fun_eq_iff map_add_def split: option.splits)
qed

lemma new_Map_distinct: "distinct (map fst (new_Map es))"
  by (simp add: new_Map_def foldl_Map_set_distinct)

lemma new_Map_map_of: "map_of (new_Map es) = map_of (rev es)"
  by (simp add: new_Map_def foldl_Map_set_map_of)

lemma new_Map_keys: "fst ` set (new_Map es) = fst ` set es"
  by (simp add: new_Map_def foldl_Map_set_keys)

lemma map_of_rev_uri:
  "map_of (rev (map (\<lambda>item. (uri item, item)) sources)) u = last_with_uri u sources"
proof (induction sources rule: rev_induct)
  case Nil
  then show ?case by (simp add: last_with_uri_def)
next
  case (snoc s sources)
  show ?case
  proof (cases "uri s = u")
    case True
    then show ?thesis
      by (simp add: last_with_uri_def)
  next
    case False
    with snoc show ?thesis
      by (simp add: last_with_uri_def)
  qed
qed

lemma new_Map_entries_uri:
  "(k, v) \<in> set (new_Map (map (\<lambda>item. (uri item, item)) sources)) \<Longrightarrow>
   last_with_uri k sources = Some v"
proof -
  assume "(k, v) \<in> set (new_Map (map (\<lambda>item. (uri item, item)) sources))"
  then have "map_of (new_Map (map (\<lambda>item. (uri item, item)) sources)) k = Some v"
    using new_Map_distinct by (metis map_of_is_SomeI)
  then show ?thesis
    by (simp add: new_Map_map_of map_of_rev_uri)
qed

lemma last_with_uri_Some:
  "last_with_uri u sources = Some v \<Longrightarrow> uri v = u \<and> v \<in> set sources"
proof -
  assume a: "last_with_uri u sources = Some v"
  then have ne: "filter (\<lambda>s. uri s = u) sources \<noteq> []"
    and v: "v = last (filter (\<lambda>s. uri s = u) sources)"
    by (auto simp: last_with_uri_def split: if_splits)
  from ne v have "v \<in> set (filter (\<lambda>s. uri s = u) sources)"
    using last_in_set by blast
  then show ?thesis by simp
qed

lemma uniqueSources_uris:
  "map uri (uniqueSources sources) = map fst (new_Map (map (\<lambda>item. (uri item, item)) sources))"
proof -
  have "uri (snd p) = fst p"
    if "p \<in> set (new_Map (map (\<lambda>item. (uri item, item)) sources))" for p
  proof -
    from that have "last_with_uri (fst p) sources = Some (snd p)"
      by (intro new_Map_entries_uri) simp
    then show ?thesis
      by (simp add: last_with_uri_Some)
  qed
  then show ?thesis
    by (simp add: uniqueSources_def Map_values_def)
qed

text \<open>
  C2. Deduplication keys on the uri and the last entry wins: the uris of the returned list
  are pairwise distinct, they are the uris of the extracted list, and every returned entry
  is the last entry of the extracted list that carries its uri.
\<close>

theorem uniqueSources_last_wins:
  "distinct (map uri (uniqueSources sources)) \<and>
   set (map uri (uniqueSources sources)) = set (map uri sources) \<and>
   (\<forall>e \<in> set (uniqueSources sources). last_with_uri (uri e) sources = Some e)"
proof (intro conjI ballI)
  show "distinct (map uri (uniqueSources sources))"
    by (simp only: uniqueSources_uris new_Map_distinct)
next
  have "set (map uri (uniqueSources sources)) =
        fst ` set (new_Map (map (\<lambda>item. (uri item, item)) sources))"
    by (simp only: uniqueSources_uris set_map)
  also have "\<dots> = fst ` set (map (\<lambda>item. (uri item, item)) sources)"
    by (rule new_Map_keys)
  also have "\<dots> = set (map uri sources)"
    by (simp add: image_image)
  finally show "set (map uri (uniqueSources sources)) = set (map uri sources)" .
next
  fix e
  assume "e \<in> set (uniqueSources sources)"
  then obtain k where k: "(k, e) \<in> set (new_Map (map (\<lambda>item. (uri item, item)) sources))"
    by (auto simp: uniqueSources_def Map_values_def)
  then have l: "last_with_uri k sources = Some e"
    by (rule new_Map_entries_uri)
  then have "uri e = k"
    using last_with_uri_Some by blast
  with l show "last_with_uri (uri e) sources = Some e"
    by simp
qed

theorem uniqueSources_last_wins_witness:
  "uniqueSources [\<lparr>title = js ''T1'', uri = js ''a''\<rparr>, \<lparr>title = js ''T2'', uri = js ''a''\<rparr>]
     = [\<lparr>title = js ''T2'', uri = js ''a''\<rparr>] \<and>
   last_with_uri (js ''a'')
     [\<lparr>title = js ''T1'', uri = js ''a''\<rparr>, \<lparr>title = js ''T2'', uri = js ''a''\<rparr>]
     = Some \<lparr>title = js ''T2'', uri = js ''a''\<rparr>"
  using uniqueSources_last_wins
    [of "[\<lparr>title = js ''T1'', uri = js ''a''\<rparr>, \<lparr>title = js ''T2'', uri = js ''a''\<rparr>]"]
  by (simp add: uniqueSources_def Map_values_def new_Map_def)

section \<open>Properties of the chat component\<close>

lemma streamLoop_fst:
  "fst (streamLoop bid cs (full, msgs)) = full @ concat (map delta cs)"
  by (induction cs arbitrary: full msgs) (auto split: option.splits elim: truthy.elims)

lemma streamLoop_length:
  "length (snd (streamLoop bid cs (full, msgs))) = length msgs"
  by (induction cs arbitrary: full msgs) auto

lemma streamLoop_roles:
  "map msg_role (snd (streamLoop bid cs (full, msgs))) = map msg_role msgs"
  by (induction cs arbitrary: full msgs) (auto simp: comp_def)

lemma streamLoop_ids:
  "map msg_id (snd (streamLoop bid cs (full, msgs))) = map msg_id msgs"
  by (induction cs arbitrary: full msgs) (auto simp: comp_def)

lemma streamLoop_text:
  "i < length msgs \<Longrightarrow> msg_id (msgs ! i) = bid \<Longrightarrow> msg_text (msgs ! i) = full \<Longrightarrow>
   msg_text (snd (streamLoop bid cs (full, msgs)) ! i) = full @ concat (map delta cs)"
proof (induction cs arbitrary: full msgs)
  case Nil
  then show ?case by simp
next
  case (Cons c cs)
  show ?case
  proof (cases "truthy c")
    case True
    then obtain t where c: "c = Some t" by (cases c) auto
    let ?msgs = "map (\<lambda>msg. if msg_id msg = bid then msg\<lparr>msg_text := full @ the c\<rparr> else msg) msgs"
    have "msg_text (snd (streamLoop bid cs (full @ the c, ?msgs)) ! i) =
          (full @ the c) @ concat (map delta cs)"
      by (rule Cons.IH) (use Cons.prems in simp_all)
    moreover have "delta c = the c" using c by simp
    ultimately show ?thesis using True by simp
  next
    case False
    then have d: "delta c = []" by (cases c) auto
    have "msg_text (snd (streamLoop bid cs (full, msgs)) ! i) = full @ concat (map delta cs)"
      by (rule Cons.IH) (use Cons.prems in simp_all)
    with False d show ?thesis by simp
  qed
qed

lemma streamLoop_last:
  "msgs \<noteq> [] \<Longrightarrow> msg_id (last msgs) = bid \<Longrightarrow> msg_text (last msgs) = full \<Longrightarrow>
   msg_text (last (snd (streamLoop bid cs (full, msgs)))) = full @ concat (map delta cs)"
proof -
  assume a: "msgs \<noteq> []" "msg_id (last msgs) = bid" "msg_text (last msgs) = full"
  let ?r = "snd (streamLoop bid cs (full, msgs))"
  have len: "length ?r = length msgs" by (rule streamLoop_length)
  with a have "last ?r = ?r ! (length msgs - 1)"
    by (metis last_conv_nth length_0_conv)
  moreover have "msg_text (?r ! (length msgs - 1)) = full @ concat (map delta cs)"
    using a by (intro streamLoop_text) (simp_all add: last_conv_nth)
  ultimately show ?thesis by simp
qed

lemma messagesAfter_text:
  "msg_text (last (messagesAfter env st chunks k)) = concat (map delta (take k chunks))"
proof -
  have "msg_text (last (snd (streamLoop (botMsgId env) (take k chunks)
          ([], messages st @ [userMessage env st, placeholder env])))) =
        [] @ concat (map delta (take k chunks))"
    by (rule streamLoop_last) (simp_all add: placeholder_def)
  then show ?thesis
    by (simp add: messagesAfter_def)
qed

text \<open>
  C3. A send whose stream completes adds exactly two messages, the user's and one
  assistant message; the assistant message ends with the concatenation of the deltas in
  arrival order, and each chunk appends its delta to the text the placeholder had.
\<close>

theorem handleSend_stream:
  assumes "trim (input st) \<noteq> []" and "chatSession st = Some session"
    and "sendMessageStream env = Stream chunks Completes"
  shows "length (messages (handleSend env st)) = length (messages st) + 2 \<and>
         map msg_role (messages (handleSend env st)) = map msg_role (messages st) @ [User, Model] \<and>
         map msg_id (messages (handleSend env st)) =
           map msg_id (messages st) @ [Number_toString (user_now env), botMsgId env] \<and>
         msg_text (last (messages (handleSend env st))) = concat (map delta chunks) \<and>
         messages (handleSend env st) = messagesAfter env st chunks (length chunks) \<and>
         (\<forall>k < length chunks.
            msg_text (last (messagesAfter env st chunks (Suc k))) =
            msg_text (last (messagesAfter env st chunks k)) @ delta (chunks ! k))"
proof -
  have e: "messages (handleSend env st) = messagesAfter env st chunks (length chunks)"
    using assms by (simp add: handleSend_def messagesAfter_def Let_def)
  have "length (messages (handleSend env st)) = length (messages st) + 2"
    by (simp add: e messagesAfter_def streamLoop_length)
  moreover
  have "map msg_role (messages (handleSend env st)) = map msg_role (messages st) @ [User, Model]"
    by (simp add: e messagesAfter_def streamLoop_roles userMessage_def placeholder_def)
  moreover
  have "map msg_id (messages (handleSend env st)) =
           map msg_id (messages st) @ [Number_toString (user_now env), botMsgId env]"
    by (simp add: e messagesAfter_def streamLoop_ids userMessage_def placeholder_def)
  moreover
  have "msg_text (last (messages (handleSend env st))) = concat (map delta chunks)"
    by (simp add: e messagesAfter_text)
  moreover
  have "\<forall>k < length chunks.
           msg_text (last (messagesAfter env st chunks (Suc k))) =
           msg_text (last (messagesAfter env st chunks k)) @ delta (chunks ! k)"
    by (simp add: messagesAfter_text take_Suc_conv_app_nth)
  ultimately show ?thesis
    using e by blast
qed

theorem handleSend_stream_witness:
  "trim (input hello_state) \<noteq> [] \<and>
   length (messages hello_state) = 1 \<and>
   length (messages (handleSend hello_env hello_state)) = 3 \<and>
   map msg_role (messages (handleSend hello_env hello_state)) = [Model, User, Model] \<and>
   msg_text (last (messages (handleSend hello_env hello_state))) = js ''Hi there''"
proof -
  have t: "trim (input hello_state) \<noteq> []"
    by (simp add: hello_state_def trim_def js_def is_space_def)
  have c: "chatSession hello_state =
           Some \<lparr>chat_model = js ''gemini-3-pro-preview'', chat_systemInstruction = []\<rparr>"
    by (simp add: hello_state_def)
  have s: "sendMessageStream hello_env = Stream [Some (js ''Hi''), Some (js '' there'')] Completes"
    by (simp add: hello_env_def)
  have r: "map msg_role (messages hello_state) = [Model]"
    by (simp add: hello_state_def greeting_def)
  have l: "length (messages hello_state) = 1"
    by (simp add: hello_state_def)
  have d: "concat (map delta [Some (js ''Hi''), Some (js '' there'')]) = js ''Hi there''"
    by (simp add: js_def)
  note h = handleSend_stream [OF t c s]
  from h have "length (messages (handleSend hello_env hello_state)) =
      length (messages hello_state) + 2"
    by blast
  with l have "length (messages (handleSend hello_env hello_state)) = 3"
    by simp
  moreover from h
  have "map msg_role (messages (handleSend hello_env hello_state)) =
      map msg_role (messages hello_state) @ [User, Model]"
    by blast
  with r have "map msg_role (messages (handleSend hello_env hello_state)) = [Model, User, Model]"
    by simp
  moreover from h
  have "msg_text (last (messages (handleSend hello_env hello_state))) =
      concat (map delta [Some (js ''Hi''), Some (js '' there'')])"
    by blast
  with d have "msg_text (last (messages (handleSend hello_env hello_state))) = js ''Hi there''"
    by simp
  ultimately show ?thesis
    using t l by blast
qed

text \<open>
  C9. The greeting is synthesized only when the message list is empty at session
  creation: a non-empty list is left as it is, and two creations in a row for a chat
  that has no message yet (with a key configured, so that the sessions are created)
  leave exactly one greeting.
\<close>

theorem initChat_greeting_once:
  "(messages st \<noteq> [] \<longrightarrow> messages (initChat key now cr h st) = messages st) \<and>
   (truthy key \<and> messages st = [] \<longrightarrow>
      messages (initChat key now cr h st) = [greeting cr now] \<and>
      messages (initChat key now' cr' h' (initChat key now cr h st)) = [greeting cr now] \<and>
      length (filter (\<lambda>m. msg_id m = js ''init'')
                (messages (initChat key now' cr' h' (initChat key now cr h st)))) = 1)"
proof (intro conjI impI)
  show "messages (initChat key now cr h st) = messages st" if "messages st \<noteq> []"
    using that by (simp add: initChat_def split: sum.splits)
next
  assume a: "truthy key \<and> messages st = []"
  then obtain session where s: "createChatSession key (Some (contextString cr h)) = Inr session"
    by (simp add: createChatSession_def getAiClient_def)
  from a obtain session' where s': "createChatSession key (Some (contextString cr' h')) = Inr session'"
    by (simp add: createChatSession_def getAiClient_def)
  show 1: "messages (initChat key now cr h st) = [greeting cr now]"
    using a s by (simp add: initChat_def)
  show 2: "messages (initChat key now' cr' h' (initChat key now cr h st)) = [greeting cr now]"
    using 1 s' by (simp add: initChat_def)
  show "length (filter (\<lambda>m. msg_id m = js ''init'')
                (messages (initChat key now' cr' h' (initChat key now cr h st)))) = 1"
    by (simp add: 2 greeting_def)
qed

theorem initChat_greeting_once_witness:
  "truthy (Some (js ''key'')) \<and> messages ChatBot_initial = [] \<and>
   messages (initChat (Some (js ''key'')) 2000 (Some roadmap_report) [roadmap_report]
      (initChat (Some (js ''key'')) 1000 None [] ChatBot_initial)) = [greeting None 1000] \<and>
   length (filter (\<lambda>m. msg_id m = js ''init'')
     (messages (initChat (Some (js ''key'')) 2000 (Some roadmap_report) [roadmap_report]
        (initChat (Some (js ''key'')) 1000 None [] ChatBot_initial)))) = 1"
  using initChat_greeting_once [of ChatBot_initial "Some (js ''key'')" 1000 None "[]"
      2000 "Some roadmap_report" "[roadmap_report]"]
  by (simp add: ChatBot_initial_def js_def greeting_def)

section \<open>Properties of the JSON text\<close>















lemma lex_seq_split:
  assumes "\<And>cs l r. f cs = Some (l, r) \<Longrightarrow> cs = l @ r"
    and "\<And>cs l r. g cs = Some (l, r) \<Longrightarrow> cs = l @ r"
    and "lex_seq f g cs = Some (l, r)"
  shows "cs = l @ r"
  using assms by (fastforce simp: lex_seq_Some)
















text \<open>Whatever \<open>JSON.parse\<close> yields is well formed: its numbers are numerals and no
  object has a property twice.\<close>

lemma agrees_Nil [simp]: "agrees r []"
  by (simp add: agrees_def)

lemma span_digits_cut:
  assumes "agrees (dropWhile is_digit cs) x"
  shows "takeWhile is_digit (takeWhile is_digit cs @ x) = takeWhile is_digit cs \<and>
         dropWhile is_digit (takeWhile is_digit cs @ x) = x"
proof -
  have nd: "x = [] \<or> \<not> is_digit (hd x)"
  proof (cases "x = []")
    case False
    with assms have "dropWhile is_digit cs \<noteq> []" "hd x = hd (dropWhile is_digit cs)"
      by (simp_all add: agrees_def)
    then show ?thesis
      using hd_dropWhile [of is_digit cs] by simp
  qed simp
  have all: "\<forall>c \<in> set (takeWhile is_digit cs). is_digit c"
    by (auto dest: set_takeWhileD)
  from nd have "takeWhile is_digit x = []" "dropWhile is_digit x = x"
    by (cases x; simp)+
  with all show ?thesis
    by (simp add: takeWhile_append2 dropWhile_append2)
qed

lemma lex_sign_cut:
  "lex_sign cs = Some (l, r) \<Longrightarrow> agrees r x \<Longrightarrow> lex_sign (l @ x) = Some (l, x)"
  by (auto simp: lex_sign_def agrees_def split: list.splits if_splits)

lemma lex_digits1_cut:
  "lex_digits1 cs = Some (l, r) \<Longrightarrow> agrees r x \<Longrightarrow> lex_digits1 (l @ x) = Some (l, x)"
  by (auto simp: lex_digits1_def span_digits_cut split: list.splits if_splits)

lemma lex_int_cut:
  "lex_int cs = Some (l, r) \<Longrightarrow> agrees r x \<Longrightarrow> lex_int (l @ x) = Some (l, x)"
  by (auto simp: lex_int_def span_digits_cut split: list.splits if_splits)

lemma lex_frac_cut:
  assumes "lex_frac cs = Some (l, r)" and "agrees r x"
  shows "lex_frac (l @ x) = Some (l, x)"
proof (cases "\<exists>cs'. cs = 46 # cs'")
  case True
  then obtain cs' where cs: "cs = 46 # cs'" by blast
  with assms(1) obtain l' where l': "lex_digits1 cs' = Some (l', r)" "l = 46 # l'"
    by (auto simp: lex_frac_def cons_fst_Some)
  from l'(1) assms(2) have "lex_digits1 (l' @ x) = Some (l', x)"
    by (rule lex_digits1_cut)
  with l'(2) show ?thesis
    by (simp add: lex_frac_def cons_fst_def)
next
  case False
  with assms(1) have l: "l = []" "r = cs"
    by (auto simp: lex_frac_def split: list.splits if_splits)
  from False l assms(2) have "x = [] \<or> hd x \<noteq> 46"
    by (cases cs) (auto simp: agrees_def)
  with l show ?thesis
    by (cases x) (auto simp: lex_frac_def)
qed

lemma lex_exp_cut:
  assumes "lex_exp cs = Some (l, r)" and "agrees r x"
  shows "lex_exp (l @ x) = Some (l, x)"
proof (cases "\<exists>c cs'. cs = c # cs' \<and> (c = 101 \<or> c = 69)")
  case True
  then obtain c cs' where cs: "cs = c # cs'" "c = 101 \<or> c = 69" by blast
  with assms(1) obtain s cs'' where cs': "cs' = s # cs''"
    by (cases cs') (auto simp: lex_exp_def)
  show ?thesis
  proof (cases "s = 43 \<or> s = 45")
    case sign: True
    with assms(1) cs cs' obtain l' where l': "lex_digits1 cs'' = Some (l', r)" "l = c # s # l'"
      by (auto simp: lex_exp_def cons_fst_Some)
    from l'(1) assms(2) have "lex_digits1 (l' @ x) = Some (l', x)"
      by (rule lex_digits1_cut)
    with l'(2) cs(2) sign show ?thesis
      by (auto simp: lex_exp_def cons_fst_def)
  next
    case False
    with assms(1) cs cs' obtain l' where l': "lex_digits1 cs' = Some (l', r)" "l = c # l'"
      by (auto simp: lex_exp_def cons_fst_Some)
    from l'(1) cs' obtain l'' where l'': "l' = s # l''"
      by (auto simp: lex_digits1_def split: if_splits)
    from l'(1) assms(2) have "lex_digits1 (l' @ x) = Some (l', x)"
      by (rule lex_digits1_cut)
    with l'(2) l'' cs(2) False show ?thesis
      by (auto simp: lex_exp_def cons_fst_def)
  qed
next
  case False
  with assms(1) have l: "l = []" "r = cs"
    by (auto simp: lex_exp_def split: list.splits if_splits)
  from False l assms(2) have "x = [] \<or> (hd x \<noteq> 101 \<and> hd x \<noteq> 69)"
    by (cases cs) (auto simp: agrees_def)
  with l show ?thesis
    by (cases x) (auto simp: lex_exp_def)
qed

lemma agrees_append: "agrees (l2 @ r) x \<Longrightarrow> l2 \<noteq> [] \<or> agrees r x \<Longrightarrow> agrees (l2 @ r) (l2 @ x)"
  by (cases l2) (auto simp: agrees_def)

lemma lex_seq_cut:
  assumes f: "\<And>cs l r x. f cs = Some (l, r) \<Longrightarrow> agrees r x \<Longrightarrow> f (l @ x) = Some (l, x)"
    and g: "\<And>cs l r x. g cs = Some (l, r) \<Longrightarrow> agrees r x \<Longrightarrow> g (l @ x) = Some (l, x)"
    and gs: "\<And>cs l r. g cs = Some (l, r) \<Longrightarrow> cs = l @ r"
    and a: "lex_seq f g cs = Some (l, r)" "agrees r x"
  shows "lex_seq f g (l @ x) = Some (l, x)"
proof -
  from a(1) obtain l1 r1 l2 where
    1: "f cs = Some (l1, r1)" and 2: "g r1 = Some (l2, r)" and l: "l = l1 @ l2"
    by (auto simp: lex_seq_Some)
  have r1: "r1 = l2 @ r"
    by (rule gs [OF 2])
  have "agrees r1 (l2 @ x)"
    using a(2) unfolding r1 by (cases l2) (auto simp: agrees_def)
  then have "f (l1 @ l2 @ x) = Some (l1, l2 @ x)"
    by (rule f [OF 1])
  moreover have "g (l2 @ x) = Some (l2, x)"
    by (rule g [OF 2 a(2)])
  ultimately show ?thesis
    by (simp add: lex_seq_def l)
qed

lemma lex_number_valid:
  assumes "lex_number cs = Some (l, r)"
  shows "lex_number l = Some (l, [])"
proof -
  have fe: "lex_seq lex_frac lex_exp cs = Some (k, r) \<Longrightarrow> agrees r x \<Longrightarrow>
            lex_seq lex_frac lex_exp (k @ x) = Some (k, x)" for cs k r x
    by (rule lex_seq_cut [where f = lex_frac and g = lex_exp])
      (auto dest: lex_frac_cut lex_exp_cut lex_exp_split)
  have fes: "lex_seq lex_frac lex_exp cs = Some (k, r) \<Longrightarrow> cs = k @ r" for cs k r
    by (rule lex_seq_split [where f = lex_frac and g = lex_exp])
      (auto dest: lex_frac_split lex_exp_split)
  have ife: "lex_seq lex_int (lex_seq lex_frac lex_exp) cs = Some (k, r) \<Longrightarrow> agrees r x \<Longrightarrow>
             lex_seq lex_int (lex_seq lex_frac lex_exp) (k @ x) = Some (k, x)" for cs k r x
    by (rule lex_seq_cut [where f = lex_int and g = "lex_seq lex_frac lex_exp"])
      (auto dest: lex_int_cut fe fes)
  have ifes: "lex_seq lex_int (lex_seq lex_frac lex_exp) cs = Some (k, r) \<Longrightarrow> cs = k @ r" for cs k r
    by (rule lex_seq_split [where f = lex_int and g = "lex_seq lex_frac lex_exp"])
      (auto dest: lex_int_split fes)
  have "lex_number (l @ []) = Some (l, [])"
    unfolding lex_number_def
    by (rule lex_seq_cut [where f = lex_sign and g = "lex_seq lex_int (lex_seq lex_frac lex_exp)"
          and cs = cs and r = r])
      (use assms in \<open>auto dest: lex_sign_cut ife ifes simp: lex_number_def\<close>)
  then show ?thesis by simp
qed

lemma numerals_Nil [simp]: "numerals []"
  by (simp add: numerals_def)

lemma numerals_Cons:
  "numerals (t # ts) \<longleftrightarrow> (\<forall>l. t = TNumber l \<longrightarrow> lex_number l = Some (l, [])) \<and> numerals ts"
  by (auto simp: numerals_def)

lemma cons_token_Some: "cons_token t r = Some ts \<longleftrightarrow> (\<exists>ts'. r = Some ts' \<and> ts = t # ts')"
  by (auto simp: cons_token_def)

lemma lex_step:
  assumes "lex (c # cs) = Some ts"
  shows "(lex cs = Some ts) \<or>
         (\<exists>t rest ts'. ts = t # ts' \<and> lex rest = Some ts' \<and> length rest \<le> length cs \<and>
            (\<forall>l. t = TNumber l \<longrightarrow> lex_number l = Some (l, [])))"
proof -
  consider (ws) "is_ws c"
    | (punct) "\<not> is_ws c" "c = 123 \<or> c = 125 \<or> c = 91 \<or> c = 93 \<or> c = 58 \<or> c = 44"
    | (str) "\<not> is_ws c" "c = 34"
    | (num) "\<not> is_ws c" "c = 45 \<or> is_digit c"
    | (lit) "\<not> is_ws c" "c \<noteq> 123" "c \<noteq> 125" "c \<noteq> 91" "c \<noteq> 93" "c \<noteq> 58" "c \<noteq> 44"
        "c \<noteq> 34" "\<not> (c = 45 \<or> is_digit c)"
    by blast
  then show ?thesis
  proof cases
    case ws
    with assms show ?thesis by simp
  next
    case punct
    with assms show ?thesis
      by (auto simp: cons_token_Some split: if_splits)
  next
    case str
    with assms obtain s rest ts' where "lex_string cs = Some (s, rest)" "lex rest = Some ts'"
      "ts = TString s # ts'"
      by (auto simp: cons_token_Some split: option.splits)
    moreover from this(1) have "length rest \<le> length cs"
      by (auto dest: lex_string_length)
    ultimately show ?thesis
      by blast
  next
    case num
    then have "c \<noteq> 123" "c \<noteq> 125" "c \<noteq> 91" "c \<noteq> 93" "c \<noteq> 58" "c \<noteq> 44" "c \<noteq> 34"
      by (auto simp: is_digit_def)
    with assms num obtain l rest ts' where l: "lex_number (c # cs) = Some (l, rest)"
      "lex rest = Some ts'" "ts = TNumber l # ts'"
      by (auto simp: cons_token_Some split: option.splits)
    from l(1) have "lex_number l = Some (l, [])" "length rest < length (c # cs)"
      by (rule lex_number_valid, rule lex_number_length)
    then have "lex_number l = Some (l, [])" "length rest \<le> length cs"
      by simp_all
    with l(2,3) show ?thesis
      by blast
  next
    case lit
    with assms obtain t k ts' where t: "ts = t # ts'" "lex (drop k cs) = Some ts'"
      "\<forall>l. t \<noteq> TNumber l"
      by (auto simp: cons_token_Some split: if_splits)
    have "length (drop k cs) \<le> length cs"
      by simp
    with t show ?thesis
      by blast
  qed
qed

lemma lex_numerals: "lex cs = Some ts \<Longrightarrow> numerals ts"
proof (induction "length cs" arbitrary: cs ts rule: less_induct)
  case less
  show ?case
  proof (cases cs)
    case Nil
    with less.prems show ?thesis by simp
  next
    case (Cons c cs')
    from lex_step [of c cs' ts] less.prems Cons
    consider "lex cs' = Some ts"
      | t rest ts' where "ts = t # ts'" "lex rest = Some ts'" "length rest \<le> length cs'"
          "\<forall>l. t = TNumber l \<longrightarrow> lex_number l = Some (l, [])"
      by auto
    then show ?thesis
    proof cases
      case 1
      then show ?thesis
        using less.hyps [of cs' ts] Cons by simp
    next
      case 2
      then have "numerals ts'"
        using less.hyps [of rest ts'] Cons by simp
      with 2 show ?thesis
        by (simp add: numerals_Cons)
    qed
  qed
qed

lemma Map_set_all:
  "list_all P m \<Longrightarrow> P (k, v) \<Longrightarrow> list_all P (Map_set m k v)"
  by (induction m k v rule: Map_set.induct) auto

lemma parse_value_LBracket_eq:
  "\<forall>ts'. ts \<noteq> RBracket # ts' \<Longrightarrow>
   parse_value fs (LBracket # ts) = parse_value (InArray [] # fs) ts"
proof (cases ts)
  case Nil
  then show ?thesis by simp
next
  case (Cons t ts')
  assume "\<forall>ts'. ts \<noteq> RBracket # ts'"
  with Cons show ?thesis by (cases t) simp_all
qed

lemma parse_value_LBrace_Some:
  assumes "parse_value fs (LBrace # ts) = Some r" and "\<forall>ts'. ts \<noteq> RBrace # ts'"
  shows "\<exists>k ts'. ts = TString k # Colon # ts'"
proof (cases ts)
  case Nil
  with assms show ?thesis by simp
next
  case (Cons t ts1)
  show ?thesis
  proof (cases t)
    case (TString k)
    show ?thesis
    proof (cases ts1)
      case Nil
      with assms Cons TString show ?thesis by simp
    next
      case c: (Cons t1 ts2)
      with assms Cons TString show ?thesis by (cases t1) simp_all
    qed
  qed (use assms Cons in simp_all)
qed

lemma parse_value_cases:
  assumes "parse_value fs ts = Some r"
  obtains (atom) t ts' v where "ts = t # ts'" "finish_value v fs ts' = Some r"
      "\<forall>l. v = JNum l \<longrightarrow> t = TNumber l" "\<forall>x. v \<noteq> JArr x" "\<forall>x. v \<noteq> JObj x"
    | (empty_array) ts' where "ts = LBracket # RBracket # ts'"
        "finish_value (JArr []) fs ts' = Some r"
    | (array) ts' where "ts = LBracket # ts'" "parse_value (InArray [] # fs) ts' = Some r"
    | (empty_object) ts' where "ts = LBrace # RBrace # ts'"
        "finish_value (JObj []) fs ts' = Some r"
    | (object) k ts' where "ts = LBrace # TString k # Colon # ts'"
        "parse_value (InObject [] k # fs) ts' = Some r"
proof (cases ts)
  case Nil
  with assms show ?thesis by simp
next
  case (Cons t ts1)
  show ?thesis
  proof (cases t)
    case LBrace
    show ?thesis
    proof (cases "\<exists>ts2. ts1 = RBrace # ts2")
      case True
      then obtain ts2 where t: "ts1 = RBrace # ts2" by blast
      with assms Cons LBrace have "finish_value (JObj []) fs ts2 = Some r" by simp
      with Cons LBrace t show ?thesis by (intro empty_object [of ts2]) simp_all
    next
      case False
      with assms Cons LBrace obtain k ts2 where t: "ts1 = TString k # Colon # ts2"
        using parse_value_LBrace_Some [of fs ts1 r] by auto
      with assms Cons LBrace have "parse_value (InObject [] k # fs) ts2 = Some r" by simp
      with Cons LBrace t show ?thesis by (intro object [of k ts2]) simp_all
    qed
  next
    case LBracket
    show ?thesis
    proof (cases "\<exists>ts2. ts1 = RBracket # ts2")
      case True
      then obtain ts2 where t: "ts1 = RBracket # ts2" by blast
      with assms Cons LBracket have "finish_value (JArr []) fs ts2 = Some r" by simp
      with Cons LBracket t show ?thesis by (intro empty_array [of ts2]) simp_all
    next
      case False
      then have "parse_value fs (LBracket # ts1) = parse_value (InArray [] # fs) ts1"
        by (intro parse_value_LBracket_eq) simp
      with assms Cons LBracket have "parse_value (InArray [] # fs) ts1 = Some r"
        by simp
      with Cons LBracket show ?thesis by (intro array [of ts1]) simp_all
    qed
  next
    case (TString s)
    with assms Cons have "finish_value (JStr s) fs ts1 = Some r" by simp
    with Cons show ?thesis by (intro atom [of t ts1 "JStr s"]) simp_all
  next
    case (TNumber l)
    with assms Cons have "finish_value (JNum l) fs ts1 = Some r" by simp
    with Cons TNumber show ?thesis by (intro atom [of t ts1 "JNum l"]) simp_all
  next
    case TTrue
    with assms Cons have "finish_value (JBool True) fs ts1 = Some r" by simp
    with Cons show ?thesis by (intro atom [of t ts1 "JBool True"]) simp_all
  next
    case TFalse
    with assms Cons have "finish_value (JBool False) fs ts1 = Some r" by simp
    with Cons show ?thesis by (intro atom [of t ts1 "JBool False"]) simp_all
  next
    case TNull
    with assms Cons have "finish_value JNull fs ts1 = Some r" by simp
    with Cons show ?thesis by (intro atom [of t ts1 JNull]) simp_all
  qed (use assms Cons in simp_all)
qed

lemma finish_value_InArray_Some:
  assumes "finish_value v (InArray es # fs) ts = Some r" and "\<forall>ts'. ts \<noteq> Comma # ts'"
  shows "\<exists>ts'. ts = RBracket # ts'"
proof (cases ts)
  case Nil
  with assms show ?thesis by simp
next
  case (Cons t ts1)
  with assms show ?thesis by (cases t) simp_all
qed

lemma finish_value_InObject_Some:
  assumes "finish_value v (InObject ms k # fs) ts = Some r" and "\<forall>ts'. ts \<noteq> RBrace # ts'"
  shows "\<exists>k' ts'. ts = Comma # TString k' # Colon # ts'"
proof (cases ts)
  case Nil
  with assms show ?thesis by simp
next
  case (Cons t ts1)
  show ?thesis
  proof (cases t)
    case Comma
    show ?thesis
    proof (cases ts1)
      case Nil
      with assms Cons Comma show ?thesis by simp
    next
      case c1: (Cons t1 ts2)
      show ?thesis
      proof (cases t1)
        case (TString k')
        show ?thesis
        proof (cases ts2)
          case Nil
          with assms Cons Comma c1 TString show ?thesis by simp
        next
          case c2: (Cons t2 ts3)
          with assms Cons Comma c1 TString show ?thesis by (cases t2) simp_all
        qed
      qed (use assms Cons Comma c1 in simp_all)
    qed
  qed (use assms Cons in simp_all)
qed

lemma finish_value_cases:
  assumes "finish_value v fs ts = Some r"
  obtains (top) "fs = []" "ts = []" "r = v"
    | (next_element) es fs' ts' where "fs = InArray es # fs'" "ts = Comma # ts'"
        "parse_value (InArray (es @ [v]) # fs') ts' = Some r"
    | (end_array) es fs' ts' where "fs = InArray es # fs'" "ts = RBracket # ts'"
        "finish_value (JArr (es @ [v])) fs' ts' = Some r"
    | (next_member) ms k fs' k' ts' where "fs = InObject ms k # fs'"
        "ts = Comma # TString k' # Colon # ts'"
        "parse_value (InObject (Map_set ms k v) k' # fs') ts' = Some r"
    | (end_object) ms k fs' ts' where "fs = InObject ms k # fs'" "ts = RBrace # ts'"
        "finish_value (JObj (Map_set ms k v)) fs' ts' = Some r"
proof (cases fs)
  case Nil
  with assms show ?thesis by (intro top) (simp_all split: if_splits)
next
  case (Cons f fs')
  show ?thesis
  proof (cases f)
    case (InArray es)
    show ?thesis
    proof (cases "\<exists>ts'. ts = Comma # ts'")
      case True
      then obtain ts' where t: "ts = Comma # ts'" by blast
      with assms Cons InArray have "parse_value (InArray (es @ [v]) # fs') ts' = Some r" by simp
      with Cons InArray t show ?thesis by (intro next_element [of es fs' ts']) simp_all
    next
      case False
      with assms Cons InArray obtain ts' where t: "ts = RBracket # ts'"
        using finish_value_InArray_Some [of v es fs' ts r] by auto
      with assms Cons InArray have "finish_value (JArr (es @ [v])) fs' ts' = Some r" by simp
      with Cons InArray t show ?thesis by (intro end_array [of es fs' ts']) simp_all
    qed
  next
    case (InObject ms k)
    show ?thesis
    proof (cases "\<exists>ts'. ts = RBrace # ts'")
      case True
      then obtain ts' where t: "ts = RBrace # ts'" by blast
      with assms Cons InObject have "finish_value (JObj (Map_set ms k v)) fs' ts' = Some r"
        by simp
      with Cons InObject t show ?thesis by (intro end_object [of ms k fs' ts']) simp_all
    next
      case False
      with assms Cons InObject obtain k' ts' where t: "ts = Comma # TString k' # Colon # ts'"
        using finish_value_InObject_Some [of v ms k fs' ts r] by auto
      with assms Cons InObject
      have "parse_value (InObject (Map_set ms k v) k' # fs') ts' = Some r" by simp
      with Cons InObject t show ?thesis by (intro next_member [of ms k fs' k' ts']) simp_all
    qed
  qed
qed

lemma parse_wf_aux:
  "list_all wf_frame fs \<Longrightarrow> numerals ts \<Longrightarrow>
   (parse_value fs ts = Some r \<longrightarrow> wf_json r) \<and>
   (wf_json v \<longrightarrow> finish_value v fs ts = Some r \<longrightarrow> wf_json r)"
proof (induction "length ts" arbitrary: ts fs v rule: less_induct)
  case less
  have IHp: "wf_json r" if "length ts0 < length ts" "list_all wf_frame fs0" "numerals ts0"
    "parse_value fs0 ts0 = Some r" for ts0 fs0
    using less.hyps [OF that(1,2,3)] that(4) by blast
  have IHf: "wf_json r" if "length ts0 < length ts" "list_all wf_frame fs0" "numerals ts0"
    "wf_json v0" "finish_value v0 fs0 ts0 = Some r" for ts0 fs0 v0
    using less.hyps [OF that(1,2,3)] that(4,5) by blast
  have fin: "wf_json r" if w: "wf_json v" and f: "finish_value v fs ts = Some r"
    using f
  proof (cases rule: finish_value_cases)
    case top
    with w show ?thesis by simp
  next
    case (next_element es fs' ts')
    show ?thesis
      by (rule IHp [OF _ _ _ next_element(3)])
        (use next_element less.prems w in \<open>simp_all add: numerals_Cons\<close>)
  next
    case (end_array es fs' ts')
    show ?thesis
      by (rule IHf [OF _ _ _ _ end_array(3)])
        (use end_array less.prems w in \<open>simp_all add: numerals_Cons\<close>)
  next
    case (next_member ms k fs' k' ts')
    show ?thesis
      by (rule IHp [OF _ _ _ next_member(3)])
        (use next_member less.prems w in
          \<open>simp_all add: numerals_Cons Map_set_distinct Map_set_all\<close>)
  next
    case (end_object ms k fs' ts')
    show ?thesis
      by (rule IHf [OF _ _ _ _ end_object(3)])
        (use end_object less.prems w in
          \<open>simp_all add: numerals_Cons Map_set_distinct Map_set_all\<close>)
  qed
  have par: "wf_json r" if p: "parse_value fs ts = Some r"
    using p
  proof (cases rule: parse_value_cases)
    case (atom t ts' v0)
    from atom(1,3,4,5) less.prems(2) have w0: "wf_json v0"
      by (cases v0) (auto simp: numerals_Cons)
    show ?thesis
      by (rule IHf [OF _ _ _ w0 atom(2)]) (use atom less.prems in \<open>simp_all add: numerals_Cons\<close>)
  next
    case (empty_array ts')
    show ?thesis
      by (rule IHf [OF _ _ _ _ empty_array(2)])
        (use empty_array less.prems in \<open>simp_all add: numerals_Cons\<close>)
  next
    case (array ts')
    show ?thesis
      by (rule IHp [OF _ _ _ array(2)]) (use array less.prems in \<open>simp_all add: numerals_Cons\<close>)
  next
    case (empty_object ts')
    show ?thesis
      by (rule IHf [OF _ _ _ _ empty_object(2)])
        (use empty_object less.prems in \<open>simp_all add: numerals_Cons\<close>)
  next
    case (object k ts')
    show ?thesis
      by (rule IHp [OF _ _ _ object(2)]) (use object less.prems in \<open>simp_all add: numerals_Cons\<close>)
  qed
  from fin par show ?case by blast
qed

lemma JSON_parse_wf: "JSON_parse text = Some v \<Longrightarrow> wf_json v"
proof -
  assume "JSON_parse text = Some v"
  then obtain ts where ts: "lex text = Some ts" "parse_value [] ts = Some v"
    by (auto simp: JSON_parse_def split: option.splits)
  from ts(1) have "numerals ts" by (rule lex_numerals)
  with parse_wf_aux [of "[]" ts v] ts(2) show ?thesis
    by simp
qed

section \<open>Properties of report generation\<close>

lemma Map_set_lookup_other: "k' \<noteq> k \<Longrightarrow> map_of (Map_set m k v) k' = map_of m k'"
  by (simp add: Map_set_map_of)

lemma property_buildReport_other:
  assumes "k \<noteq> js ''id''" "k \<noteq> js ''createdAt''" "k \<noteq> js ''sources''"
  shows "property (buildReport env data sources) k = property data k"
  using assms by (simp add: property_def buildReport_def Map_set_map_of)

lemma property_buildReport_sources:
  "property (buildReport env data sources) (js ''sources'') = Some (JArr (map source_json sources))"
  by (simp add: property_def buildReport_def Map_set_map_of)

lemma generate_cases:
  "generatePoliticalReport env topic hist =
     (if \<not> truthy (API_KEY env) then ([], Inl (Error missingKeyMessage))
      else case generateContent env (buildRequest env topic hist) of
        Inl e \<Rightarrow>
          ([Progress Researching, Progress Analyzing, ModelCall (buildRequest env topic hist)],
           Inl (Error genericMessage))
      | Inr r \<Rightarrow>
          ([Progress Researching, Progress Analyzing, ModelCall (buildRequest env topic hist),
            Progress Formatting],
           if \<not> truthy (resp_text r) then Inl (Error genericMessage)
           else case JSON_parse (cleanResponse (the (resp_text r))) of
             None \<Rightarrow> Inl (Error genericMessage)
           | Some data \<Rightarrow>
               Inr (buildReport env data (uniqueSources (extractSources (responseChunks r))))))"
  by (simp add: generatePoliticalReport_def getAiClient_def readResponse_def
      split: sum.splits option.splits)

text \<open>Every report that is returned is well formed.\<close>

lemma decimal_digits: "\<forall>c \<in> set (decimal n). is_digit c"
proof (induction n rule: decimal.induct)
  case (1 n)
  show ?case
  proof (cases "n < 10")
    case True
    then show ?thesis
      by (subst decimal.simps) (simp add: is_digit_def)
  next
    case False
    have "n mod 10 < 10" by simp
    then have "is_digit (48 + n mod 10)"
      unfolding is_digit_def by linarith
    with False "1.IH" show ?thesis
      by (subst decimal.simps) simp
  qed
qed

lemma decimal_nonempty: "decimal n \<noteq> []"
  by (subst decimal.simps) simp

lemma decimal_head: "0 < n \<Longrightarrow> hd (decimal n) \<noteq> 48"
proof (induction n rule: decimal.induct)
  case (1 n)
  show ?case
  proof (cases "n < 10")
    case True
    with "1.prems" show ?thesis
      by (subst decimal.simps) simp
  next
    case False
    then have "0 < n div 10" by simp
    with False have "hd (decimal (n div 10)) \<noteq> 48"
      by (intro "1.IH") simp_all
    with False show ?thesis
      by (subst decimal.simps) (simp add: decimal_nonempty)
  qed
qed

lemma lex_int_decimal: "lex_int (decimal n) = Some (decimal n, [])"
proof (cases "n = 0")
  case True
  have "decimal 0 = [48]"
    by (subst decimal.simps) simp
  with True show ?thesis
    by (simp add: lex_int_def)
next
  case False
  obtain c cs where d: "decimal n = c # cs"
    using decimal_nonempty [of n] by (cases "decimal n") auto
  with False decimal_head [of n] have c: "c \<noteq> 48" by simp
  from d decimal_digits [of n] have "is_digit c" "\<forall>x \<in> set cs. is_digit x"
    by simp_all
  then have "takeWhile is_digit cs = cs" "dropWhile is_digit cs = []"
    by simp_all
  with d c \<open>is_digit c\<close> show ?thesis
    by (simp add: lex_int_def)
qed

lemma lex_number_decimal: "lex_number (decimal n) = Some (decimal n, [])"
proof -
  obtain c cs where d: "decimal n = c # cs"
    using decimal_nonempty [of n] by (cases "decimal n") auto
  with decimal_digits [of n] have "c \<noteq> 45"
    by (auto simp: is_digit_def)
  with d have "lex_sign (decimal n) = Some ([], decimal n)"
    by (simp add: lex_sign_def)
  then show ?thesis
    by (simp add: lex_number_def lex_seq_def lex_int_decimal lex_frac_def lex_exp_def)
qed

lemma lex_number_toString: "lex_number (Number_toString i) = Some (Number_toString i, [])"
proof (cases "i < 0")
  case True
  have "lex_sign (45 # decimal (nat (- i))) = Some ([45], decimal (nat (- i)))"
    by (simp add: lex_sign_def)
  with True show ?thesis
    by (simp add: Number_toString_def lex_number_def lex_seq_def lex_int_decimal
        lex_frac_def lex_exp_def)
next
  case False
  then show ?thesis
    by (simp add: Number_toString_def lex_number_decimal)
qed

lemma decimal_length: "10 \<le> n \<Longrightarrow> 2 \<le> length (decimal n)"
proof -
  assume "10 \<le> n"
  then have "decimal n = decimal (n div 10) @ [48 + n mod 10]"
    by (subst decimal.simps) simp
  moreover have "1 \<le> length (decimal (n div 10))"
    using decimal_nonempty [of "n div 10"] by (cases "decimal (n div 10)") simp_all
  ultimately show ?thesis by simp
qed

lemma decimal_inj: "decimal m = decimal n \<Longrightarrow> m = n"
proof (induction m arbitrary: n rule: decimal.induct)
  case (1 m)
  show ?case
  proof (cases "m < 10")
    case True
    then have m: "decimal m = [48 + m]"
      by (subst decimal.simps) simp
    show ?thesis
    proof (cases "n < 10")
      case n: True
      then have "decimal n = [48 + n]"
        by (subst decimal.simps) simp
      with m "1.prems" show ?thesis by simp
    next
      case False
      then have "2 \<le> length (decimal n)"
        by (intro decimal_length) simp
      with m "1.prems" show ?thesis by simp
    qed
  next
    case False
    then have m: "decimal m = decimal (m div 10) @ [48 + m mod 10]"
      by (subst decimal.simps) simp
    show ?thesis
    proof (cases "n < 10")
      case True
      then have "decimal n = [48 + n]"
        by (subst decimal.simps) simp
      moreover from False have "2 \<le> length (decimal m)"
        by (intro decimal_length) simp
      ultimately show ?thesis
        using "1.prems" by simp
    next
      case n: False
      then have "decimal n = decimal (n div 10) @ [48 + n mod 10]"
        by (subst decimal.simps) simp
      with m "1.prems" have e: "decimal (m div 10) = decimal (n div 10)" "m mod 10 = n mod 10"
        by simp_all
      from False e(1) have "m div 10 = n div 10"
        by (intro "1.IH") simp_all
      with e(2) show ?thesis
        by (metis div_mult_mod_eq)
    qed
  qed
qed

lemma indices_distinct: "distinct (indices n)"
proof -
  have "indices n = map decimal [0..<n]"
    by (simp add: indices_def Number_toString_def)
  moreover have "inj_on decimal (set [0..<n])"
    by (auto intro: inj_onI dest: decimal_inj)
  ultimately show ?thesis
    by (simp add: distinct_map)
qed

lemma indices_length: "length (indices n) = n"
  by (simp add: indices_def)

lemma ownProperties_wf:
  assumes "wf_json v"
  shows "distinct (map fst (ownProperties v)) \<and> list_all (\<lambda>m. wf_json (snd m)) (ownProperties v)"
proof (cases v)
  case (JArr vs)
  with assms have "\<forall>x \<in> set vs. wf_json x"
    by (simp add: list_all_iff)
  then have "list_all (\<lambda>m. wf_json (snd m)) (zip (indices (length vs)) vs)"
    by (auto simp: list_all_iff dest: set_zip_rightD)
  with JArr show ?thesis
    by (simp add: indices_distinct indices_length)
next
  case (JStr s)
  have "list_all (\<lambda>m. wf_json (snd m)) (zip (indices (length s)) (map (\<lambda>c. JStr [c]) s))"
    by (auto simp: list_all_iff dest!: set_zip_rightD)
  with JStr show ?thesis
    by (simp add: indices_distinct indices_length)
qed (use assms in simp_all)

lemma buildReport_wf:
  assumes "wf_json data"
  shows "wf_json (buildReport env data sources)"
proof -
  note o = ownProperties_wf [OF assms]
  have s: "wf_json (JArr (map source_json sources))"
    by (simp add: list_all_iff source_json_def js_def)
  have n: "wf_json (JNum (Number_toString (Date_now env)))"
    by (simp add: lex_number_toString)
  show ?thesis
    unfolding buildReport_def wf_json.simps
    by (intro conjI Map_set_distinct Map_set_all) (use o s n in simp_all)
qed

lemma generated_report_wf:
  "snd (generatePoliticalReport env topic hist) = Inr report \<Longrightarrow> wf_json report"
  unfolding generate_cases
  by (auto split: if_splits sum.splits option.splits dest: JSON_parse_wf intro: buildReport_wf)

text \<open>
  C1, as stated, fails: the text of the response is parsed and spread into the report
  without any check, so a response whose title and executiveSummary are empty is
  returned as a report, with no error.
\<close>

theorem generate_empty_title_counterexample:
  "(case snd (generatePoliticalReport emptyTitle_env (js ''UP 2027'') []) of
      Inl e \<Rightarrow> False
    | Inr report \<Rightarrow>
        \<not> nonempty_text report (js ''title'') \<and>
        \<not> nonempty_text report (js ''executiveSummary''))"
proof -
  let ?text = "js ''{\"title\":\"\",\"executiveSummary\":\"\"}''"
  let ?data = "JObj [(js ''title'', JStr []), (js ''executiveSummary'', JStr [])]"
  have k: "truthy (API_KEY emptyTitle_env)"
    by (simp add: emptyTitle_env_def js_def)
  have g: "generateContent emptyTitle_env (buildRequest emptyTitle_env (js ''UP 2027'') []) =
      Inr \<lparr>resp_text = Some ?text, resp_candidates = None\<rparr>"
    by (simp add: emptyTitle_env_def)
  have c: "cleanResponse ?text = ?text"
    by (simp add: cleanResponse_def trim_def is_space_def js_def)
  have p: "JSON_parse ?text = Some ?data"
    by (simp add: JSON_parse_def js_def is_ws_def is_digit_def cons_token_def cons_fst_def)
  have ne: "?text \<noteq> []"
    by (simp add: js_def)
  have r: "snd (generatePoliticalReport emptyTitle_env (js ''UP 2027'') []) =
      Inr (buildReport emptyTitle_env ?data
             (uniqueSources (extractSources (responseChunks
                \<lparr>resp_text = Some ?text, resp_candidates = None\<rparr>))))"
    unfolding generate_cases using k ne by (simp add: g c p)
  have "property (buildReport emptyTitle_env ?data sources) (js ''title'') =
      property ?data (js ''title'')" for sources
    by (rule property_buildReport_other) (simp_all add: js_def)
  then have t: "property (buildReport emptyTitle_env ?data sources) (js ''title'') =
      Some (JStr [])" for sources
    by (simp add: property_def)
  have "property (buildReport emptyTitle_env ?data sources) (js ''executiveSummary'') =
      property ?data (js ''executiveSummary'')" for sources
    by (rule property_buildReport_other) (simp_all add: js_def)
  then have e: "property (buildReport emptyTitle_env ?data sources) (js ''executiveSummary'') =
      Some (JStr [])" for sources
    by (simp add: property_def js_def)
  show ?thesis
    unfolding r by (simp add: nonempty_text_def t e)
qed

text \<open>
  C1, amended. A call either fails (with the missing-key error or the generic error) or
  returns the report built from the value that the response text parses to; the title
  and the executiveSummary of the report are exactly those of the parsed value, present
  and non-empty only when the model sent them so.
\<close>

theorem generate_returns_parsed_or_fails:
  "snd (generatePoliticalReport env topic hist) = Inl (Error missingKeyMessage) \<or>
   snd (generatePoliticalReport env topic hist) = Inl (Error genericMessage) \<or>
   (\<exists>r data.
      generateContent env (buildRequest env topic hist) = Inr r \<and>
      truthy (resp_text r) \<and>
      JSON_parse (cleanResponse (the (resp_text r))) = Some data \<and>
      snd (generatePoliticalReport env topic hist) =
        Inr (buildReport env data (uniqueSources (extractSources (responseChunks r)))) \<and>
      property (buildReport env data (uniqueSources (extractSources (responseChunks r))))
        (js ''title'') = property data (js ''title'') \<and>
      property (buildReport env data (uniqueSources (extractSources (responseChunks r))))
        (js ''executiveSummary'') = property data (js ''executiveSummary''))"
proof -
  have t: "js ''title'' \<noteq> js ''id''" "js ''title'' \<noteq> js ''createdAt''"
    "js ''title'' \<noteq> js ''sources''"
    by (simp_all add: js_def)
  have s: "js ''executiveSummary'' \<noteq> js ''id''" "js ''executiveSummary'' \<noteq> js ''createdAt''"
    "js ''executiveSummary'' \<noteq> js ''sources''"
    by (simp_all add: js_def)
  show ?thesis
    unfolding generate_cases
    by (auto simp: property_buildReport_other [OF t] property_buildReport_other [OF s]
        split: sum.splits option.splits)
qed

text \<open>
  C7. With a key configured, when the model call throws, or the response has no text or
  an empty one, or the cleaned text is no JSON, the call fails with the generic message,
  and exactly one request has been sent: nothing is retried.
\<close>

theorem generate_failure_is_generic:
  assumes "truthy (API_KEY env)"
    and "(\<exists>e. generateContent env (buildRequest env topic hist) = Inl e) \<or>
         (\<exists>r. generateContent env (buildRequest env topic hist) = Inr r \<and>
              (\<not> truthy (resp_text r) \<or> JSON_parse (cleanResponse (the (resp_text r))) = None))"
  shows "snd (generatePoliticalReport env topic hist) = Inl (Error genericMessage) \<and>
         model_calls (fst (generatePoliticalReport env topic hist)) = 1"
  using assms unfolding generate_cases
  by (auto simp: model_calls_def split: sum.splits option.splits)

theorem generate_failure_is_generic_witness:
  "truthy (API_KEY notJson_env) \<and>
   JSON_parse (cleanResponse (js ''```json {not json ```'')) = None \<and>
   snd (generatePoliticalReport notJson_env (js ''UP 2027'') []) = Inl (Error genericMessage) \<and>
   model_calls (fst (generatePoliticalReport notJson_env (js ''UP 2027'') [])) = 1"
proof -
  have k: "truthy (API_KEY notJson_env)"
    by (simp add: notJson_env_def js_def)
  have "cleanResponse (js ''```json {not json ```'') = js ''{not json''"
    by (simp add: cleanResponse_def trim_def is_space_def js_def)
  then have p: "JSON_parse (cleanResponse (js ''```json {not json ```'')) = None"
    by (simp add: JSON_parse_def js_def is_ws_def is_digit_def cons_token_def cons_fst_def)
  have g: "generateContent notJson_env (buildRequest notJson_env (js ''UP 2027'') []) =
      Inr \<lparr>resp_text = Some (js ''```json {not json ```''), resp_candidates = None\<rparr>"
    by (simp add: notJson_env_def)
  have "(\<exists>e. generateContent notJson_env (buildRequest notJson_env (js ''UP 2027'') []) = Inl e) \<or>
        (\<exists>r. generateContent notJson_env (buildRequest notJson_env (js ''UP 2027'') []) = Inr r \<and>
              (\<not> truthy (resp_text r) \<or> JSON_parse (cleanResponse (the (resp_text r))) = None))"
    using g p by simp
  from generate_failure_is_generic [OF k this] k p show ?thesis
    by simp
qed

text \<open>
  C8. Without a key (none, or an empty one) both entry points fail with the missing-key
  error when they are called; report generation has then made no progress callback and
  sent no request, and the message differs from the generic one.
\<close>

theorem missing_key_fails_first:
  "\<not> truthy (API_KEY env) \<Longrightarrow>
   generatePoliticalReport env topic hist = ([], Inl (Error missingKeyMessage)) \<and>
   createChatSession (API_KEY env) context = Inl (Error missingKeyMessage) \<and>
   missingKeyMessage \<noteq> genericMessage"
  by (simp add: generate_cases createChatSession_def getAiClient_def
      missingKeyMessage_def genericMessage_def js_def)

theorem missing_key_fails_first_witness:
  "\<not> truthy (API_KEY noKey_env) \<and>
   generatePoliticalReport noKey_env (js ''UP 2027'') [] = ([], Inl (Error missingKeyMessage)) \<and>
   createChatSession (API_KEY noKey_env) None = Inl (Error missingKeyMessage)"
proof -
  have k: "\<not> truthy (API_KEY noKey_env)"
    by (simp add: noKey_env_def)
  from missing_key_fails_first [OF k] k show ?thesis
    by simp
qed

lemma foldl_pushSource:
  "foldl pushSource acc cs =
     acc @ map (\<lambda>c. \<lparr>title = the (chunk_title c), uri = the (chunk_uri c)\<rparr>)
             (filter (\<lambda>c. truthy (chunk_uri c) \<and> truthy (chunk_title c)) cs)"
  by (induction cs arbitrary: acc) (simp_all add: pushSource_def)

lemma truthy_Some: "truthy x \<Longrightarrow> x = Some (the x) \<and> the x \<noteq> []"
  by (cases x) simp_all

lemma extractSources_member:
  assumes "s \<in> set (extractSources chunks)"
  shows "title s \<noteq> [] \<and> uri s \<noteq> [] \<and>
         (\<exists>cs c. chunks = Some cs \<and> c \<in> set cs \<and>
                 chunk_title c = Some (title s) \<and> chunk_uri c = Some (uri s))"
proof (cases chunks)
  case None
  with assms show ?thesis by (simp add: extractSources_def)
next
  case (Some cs)
  with assms obtain c where c: "c \<in> set cs" "truthy (chunk_uri c)" "truthy (chunk_title c)"
    "s = \<lparr>title = the (chunk_title c), uri = the (chunk_uri c)\<rparr>"
    by (auto simp: extractSources_def foldl_pushSource)
  from c(2,3) have "chunk_uri c = Some (the (chunk_uri c))" "the (chunk_uri c) \<noteq> []"
    "chunk_title c = Some (the (chunk_title c))" "the (chunk_title c) \<noteq> []"
    by (simp_all add: truthy_Some)
  with c(1,4) Some show ?thesis
    by auto
qed

lemma uniqueSources_subset: "e \<in> set (uniqueSources sources) \<Longrightarrow> e \<in> set sources"
proof -
  assume "e \<in> set (uniqueSources sources)"
  then obtain k where "(k, e) \<in> set (new_Map (map (\<lambda>item. (uri item, item)) sources))"
    by (auto simp: uniqueSources_def Map_values_def)
  then have "last_with_uri k sources = Some e"
    by (rule new_Map_entries_uri)
  then show ?thesis
    by (simp add: last_with_uri_Some)
qed

text \<open>
  C10. The extraction keeps exactly the chunks that have both a web uri and a web title
  (non-empty), in their order; so every source of a returned report has a non-empty title
  and a non-empty uri, both taken from one chunk that had both.
\<close>

theorem report_sources_have_title_and_uri:
  "extractSources (Some cs) =
     map (\<lambda>c. \<lparr>title = the (chunk_title c), uri = the (chunk_uri c)\<rparr>)
       (filter (\<lambda>c. truthy (chunk_uri c) \<and> truthy (chunk_title c)) cs) \<and>
   (generateContent env (buildRequest env topic hist) = Inr r \<and>
    snd (generatePoliticalReport env topic hist) = Inr report \<longrightarrow>
      property report (js ''sources'') =
        Some (JArr (map source_json (uniqueSources (extractSources (responseChunks r))))) \<and>
      (\<forall>s \<in> set (uniqueSources (extractSources (responseChunks r))).
         title s \<noteq> [] \<and> uri s \<noteq> [] \<and>
         (\<exists>cs c. responseChunks r = Some cs \<and> c \<in> set cs \<and>
                 chunk_title c = Some (title s) \<and> chunk_uri c = Some (uri s))))"
proof (intro conjI impI ballI)
  show "extractSources (Some cs) =
     map (\<lambda>c. \<lparr>title = the (chunk_title c), uri = the (chunk_uri c)\<rparr>)
       (filter (\<lambda>c. truthy (chunk_uri c) \<and> truthy (chunk_title c)) cs)"
    by (simp add: extractSources_def foldl_pushSource)
next
  assume a: "generateContent env (buildRequest env topic hist) = Inr r \<and>
    snd (generatePoliticalReport env topic hist) = Inr report"
  then obtain data where
    "report = buildReport env data (uniqueSources (extractSources (responseChunks r)))"
    unfolding generate_cases by (auto split: if_splits option.splits)
  then show "property report (js ''sources'') =
        Some (JArr (map source_json (uniqueSources (extractSources (responseChunks r)))))"
    by (simp add: property_buildReport_sources)
next
  fix s
  assume "s \<in> set (uniqueSources (extractSources (responseChunks r)))"
  then have s: "s \<in> set (extractSources (responseChunks r))"
    by (rule uniqueSources_subset)
  from extractSources_member [OF s]
  show "title s \<noteq> []" and "uri s \<noteq> []"
    and "\<exists>cs c. responseChunks r = Some cs \<and> c \<in> set cs \<and>
                 chunk_title c = Some (title s) \<and> chunk_uri c = Some (uri s)"
    by blast+
qed

theorem report_sources_have_title_and_uri_witness:
  "generateContent sources_env (buildRequest sources_env (js ''UP 2027'') []) = Inr sources_response \<and>
   uniqueSources (extractSources (responseChunks sources_response)) =
     [\<lparr>title = js ''T2'', uri = js ''a''\<rparr>] \<and>
   property (case snd (generatePoliticalReport sources_env (js ''UP 2027'') []) of Inr report \<Rightarrow> report)
     (js ''sources'') = Some (JArr [source_json \<lparr>title = js ''T2'', uri = js ''a''\<rparr>])"
proof -
  let ?text = "js ''{\"title\":\"UP\",\"executiveSummary\":\"S\"}''"
  let ?data = "JObj [(js ''title'', JStr (js ''UP'')), (js ''executiveSummary'', JStr (js ''S''))]"
  have g: "generateContent sources_env (buildRequest sources_env (js ''UP 2027'') []) =
      Inr sources_response"
    by (simp add: sources_env_def sources_response_def)
  have k: "truthy (API_KEY sources_env)"
    by (simp add: sources_env_def js_def)
  have t: "resp_text sources_response = Some ?text"
    by (simp add: sources_response_def)
  have ne: "?text \<noteq> []"
    by (simp add: js_def)
  have c: "cleanResponse ?text = ?text"
    by (simp add: cleanResponse_def trim_def is_space_def js_def)
  have p: "JSON_parse ?text = Some ?data"
    by (simp add: JSON_parse_def js_def is_ws_def is_digit_def cons_token_def cons_fst_def)
  have u: "uniqueSources (extractSources (responseChunks sources_response)) =
      [\<lparr>title = js ''T2'', uri = js ''a''\<rparr>]"
    by (simp add: sources_response_def responseChunks_def extractSources_def pushSource_def
        chunk_uri_def chunk_title_def uniqueSources_def new_Map_def Map_values_def js_def)
  have r: "snd (generatePoliticalReport sources_env (js ''UP 2027'') []) =
      Inr (buildReport sources_env ?data
             (uniqueSources (extractSources (responseChunks sources_response))))"
    unfolding generate_cases using k ne by (simp add: g t c p)
  from report_sources_have_title_and_uri
    [of "[]" sources_env "js ''UP 2027''" "[]" sources_response
       "buildReport sources_env ?data
          (uniqueSources (extractSources (responseChunks sources_response)))"] g r
  have "property (buildReport sources_env ?data
          (uniqueSources (extractSources (responseChunks sources_response)))) (js ''sources'') =
        Some (JArr (map source_json
          (uniqueSources (extractSources (responseChunks sources_response)))))"
    by blast
  with g u r show ?thesis
    by simp
qed

section \<open>Properties of the history store\<close>

text \<open>The operations keep the history well formed.\<close>

lemma loadHistory_wf:
  "wf_json (history st) \<Longrightarrow> loadHistory st = Inr st' \<Longrightarrow> wf_json (history st')"
  by (auto simp: loadHistory_def split: option.splits if_splits dest: JSON_parse_wf)

lemma saveToHistory_wf:
  assumes "wf_json r" "wf_json (history st)" "saveToHistory r st = Inr st'"
  shows "wf_json (history st')"
proof (cases "history st")
  case (JArr hs)
  with assms show ?thesis
    by (auto simp: saveToHistory_def)
next
  case (JStr s)
  with assms show ?thesis
    by (auto simp: saveToHistory_def list_all_iff)
qed (use assms in \<open>simp_all add: saveToHistory_def\<close>)

lemma filterById_subset: "filterById i hs = Inr hs' \<Longrightarrow> set hs' \<subseteq> set hs"
  by (induction hs arbitrary: hs') (auto split: sum.splits if_splits)

lemma deleteFromHistory_wf:
  assumes "wf_json (history st)" "deleteFromHistory i st = Inr st'"
  shows "wf_json (history st')"
proof -
  from assms(2) obtain hs hs' where h: "history st = JArr hs" "filterById i hs = Inr hs'"
    "history st' = JArr hs'"
    by (auto simp: deleteFromHistory_def split: json.splits sum.splits)
  from h(2) have "set hs' \<subseteq> set hs"
    by (rule filterById_subset)
  with assms(1) h(1,3) show ?thesis
    by (auto simp: list_all_iff)
qed












text \<open>
  C6. A stored text that is no JSON makes the load neither throw nor change the history,
  which stays empty.
\<close>

theorem load_corrupt_history:
  assumes "JSON_parse saved = None"
  shows "loadHistory (App_initial (Some saved)) = Inr (App_initial (Some saved)) \<and>
         history (App_initial (Some saved)) = JArr []"
proof
  have s: "storage (App_initial (Some saved)) = Some saved"
    by (simp add: App_initial_def)
  show "loadHistory (App_initial (Some saved)) = Inr (App_initial (Some saved))"
  proof (cases "saved = []")
    case True
    with s show ?thesis
      by (simp add: loadHistory_def)
  next
    case False
    with s assms show ?thesis
      by (simp add: loadHistory_def)
  qed
  show "history (App_initial (Some saved)) = JArr []"
    by (simp add: App_initial_def)
qed

theorem load_corrupt_history_witness:
  "JSON_parse (js ''{not json'') = None \<and>
   loadHistory (App_initial (Some (js ''{not json''))) = Inr (App_initial (Some (js ''{not json''))) \<and>
   history (App_initial (Some (js ''{not json''))) = JArr []"
proof -
  have p: "JSON_parse (js ''{not json'') = None"
    by (simp add: JSON_parse_def js_def is_ws_def is_digit_def cons_token_def cons_fst_def)
  from load_corrupt_history [OF p] p show ?thesis
    by simp
qed

end
